theory Spec2Isabelle
  imports Main "HOL-Library.Word"
begin

section \<open>Python values and strings\<close>

text \<open>
  The events handled by \<^verbatim>\<open>expand_recurring_events.py\<close> are the dictionaries that
  \<^verbatim>\<open>json.loads\<close> returns. A dictionary is an association list in insertion order with
  distinct keys. Numbers are integers: the expander never computes with a number, and
  JSON numbers with a fraction are left out of the model. Strings are lists of
  characters, and the character operations (\<^verbatim>\<open>lower\<close>, \<^verbatim>\<open>strip\<close>, the digit classes of
  \<^verbatim>\<open>strptime\<close>) are those of Python on ASCII.
\<close>

datatype py_error = AttributeError | TypeError | ValueError | OverflowError

datatype jval =
    JNull
  | JBool bool
  | JInt int
  | JStr string
  | JArr "jval list"
  | JObj "(string \<times> jval) list"

type_synonym pydict = "(string \<times> jval) list"

text \<open>Truth value of an object, as \<^verbatim>\<open>not x\<close> and \<^verbatim>\<open>all([...])\<close> test it.\<close>

fun truthy :: "jval \<Rightarrow> bool" where
  "truthy JNull = False"
| "truthy (JBool b) = b"
| "truthy (JInt n) = (n \<noteq> 0)"
| "truthy (JStr s) = (s \<noteq> [])"
| "truthy (JArr xs) = (xs \<noteq> [])"
| "truthy (JObj kvs) = (kvs \<noteq> [])"

text \<open>\<^verbatim>\<open>d.get(k, default)\<close> and \<^verbatim>\<open>d[k] = v\<close> (an existing key keeps its place, a new key
  goes last).\<close>

definition dict_get :: "pydict \<Rightarrow> string \<Rightarrow> jval \<Rightarrow> jval" where
  "dict_get d k dflt = (case map_of d k of Some v \<Rightarrow> v | None \<Rightarrow> dflt)"

fun dict_set :: "pydict \<Rightarrow> string \<Rightarrow> jval \<Rightarrow> pydict" where
  "dict_set [] k v = [(k, v)]"
| "dict_set (p # ps) k v = (if fst p = k then (k, v) # ps else p # dict_set ps k v)"

text \<open>\<^verbatim>\<open>needle in x\<close> for a one-character needle: substring test on a string, membership
  on a list, key test on a dictionary, \<^verbatim>\<open>TypeError\<close> on anything else.\<close>

fun py_contains :: "char \<Rightarrow> jval \<Rightarrow> py_error + bool" where
  "py_contains c (JStr s) = Inr (c \<in> set s)"
| "py_contains c (JArr xs) = Inr (JStr [c] \<in> set xs)"
| "py_contains c (JObj kvs) = Inr ([c] \<in> fst ` set kvs)"
| "py_contains c v = Inl TypeError"

definition lower_char :: "char \<Rightarrow> char" where
  "lower_char c =
     (case map_of (zip ''ABCDEFGHIJKLMNOPQRSTUVWXYZ'' ''abcdefghijklmnopqrstuvwxyz'') c of
        Some l \<Rightarrow> l
      | None \<Rightarrow> c)"

definition lower_str :: "string \<Rightarrow> string" where
  "lower_str s = map lower_char s"

text \<open>\<^verbatim>\<open>x.lower()\<close> on an arbitrary value: only strings have the method.\<close>

fun py_lower :: "jval \<Rightarrow> py_error + string" where
  "py_lower (JStr s) = Inr (lower_str s)"
| "py_lower v = Inl AttributeError"

text \<open>\<^verbatim>\<open>s.split('+')[0]\<close>, \<^verbatim>\<open>s.split('+')[1]\<close> (used only when \<^verbatim>\<open>'+' in s\<close>),
  \<^verbatim>\<open>s.replace('Z', '')\<close> and \<^verbatim>\<open>s.replace(' ', '_')\<close>.\<close>

definition split_plus_0 :: "string \<Rightarrow> string" where
  "split_plus_0 s = takeWhile (\<lambda>c. c \<noteq> CHR ''+'') s"

definition split_plus_1 :: "string \<Rightarrow> string" where
  "split_plus_1 s = takeWhile (\<lambda>c. c \<noteq> CHR ''+'') (tl (dropWhile (\<lambda>c. c \<noteq> CHR ''+'') s))"

definition remove_Z :: "string \<Rightarrow> string" where
  "remove_Z s = filter (\<lambda>c. c \<noteq> CHR ''Z'') s"

definition spaces_to_underscores :: "string \<Rightarrow> string" where
  "spaces_to_underscores s = map (\<lambda>c. if c = CHR '' '' then CHR ''_'' else c) s"

section \<open>Naive datetimes\<close>

text \<open>
  A \<^verbatim>\<open>datetime\<close> without timezone is its seven fields. The proleptic Gregorian ordinal
  of a date (1 January of year 1 is day 1) follows \<^verbatim>\<open>_ymd2ord\<close> and \<^verbatim>\<open>_ord2ymd\<close> of the
  standard library. A \<^verbatim>\<open>timedelta\<close> is its total number of microseconds.
\<close>

record datetime =
  year :: int
  month :: int
  day :: int
  hour :: int
  minute :: int
  second :: int
  microsecond :: int

type_synonym timedelta = int

definition is_leap :: "int \<Rightarrow> bool" where
  "is_leap y = (y mod 4 = 0 \<and> (y mod 100 \<noteq> 0 \<or> y mod 400 = 0))"

definition days_in_month_table :: "int \<Rightarrow> int" where
  "days_in_month_table m =
     (if m = 2 then 28 else if m = 4 \<or> m = 6 \<or> m = 9 \<or> m = 11 then 30 else 31)"

definition days_in_month :: "int \<Rightarrow> int \<Rightarrow> int" where
  "days_in_month y m = (if m = 2 \<and> is_leap y then 29 else days_in_month_table m)"

definition days_before_year :: "int \<Rightarrow> int" where
  "days_before_year y = (y - 1) * 365 + (y - 1) div 4 - (y - 1) div 100 + (y - 1) div 400"

definition days_before_month_table :: "int \<Rightarrow> int" where
  "days_before_month_table m =
     (if m = 1 then 0 else if m = 2 then 31 else if m = 3 then 59 else if m = 4 then 90
      else if m = 5 then 120 else if m = 6 then 151 else if m = 7 then 181
      else if m = 8 then 212 else if m = 9 then 243 else if m = 10 then 273
      else if m = 11 then 304 else 334)"

definition days_before_month :: "int \<Rightarrow> int \<Rightarrow> int" where
  "days_before_month y m = days_before_month_table m + (if m > 2 \<and> is_leap y then 1 else 0)"

definition ymd2ord :: "int \<Rightarrow> int \<Rightarrow> int \<Rightarrow> int" where
  "ymd2ord y m d = days_before_year y + days_before_month y m + d"

text \<open>The month and the day of the month from the leap flag and the offset \<open>n\<close> of the day
  in its year: \<^verbatim>\<open>(n + 50) >> 5\<close> estimates the month and is exact or one too large.\<close>

definition month_and_day :: "bool \<Rightarrow> int \<Rightarrow> int \<times> int" where
  "month_and_day leapyear n =
     (let m = (n + 50) div 32;
          preceding = days_before_month_table m + (if m > 2 \<and> leapyear then 1 else 0)
      in if preceding > n
         then (m - 1,
               n - (preceding
                     - (days_in_month_table (m - 1) + (if m - 1 = 2 \<and> leapyear then 1 else 0)))
                 + 1)
         else (m, n - preceding + 1))"

definition ord2ymd :: "int \<Rightarrow> int \<times> int \<times> int" where
  "ord2ymd n0 =
     (let n = n0 - 1;
          n400 = n div 146097; n = n mod 146097;
          n100 = n div 36524; n = n mod 36524;
          n4 = n div 1461; n = n mod 1461;
          n1 = n div 365; n = n mod 365;
          y = n400 * 400 + 1 + n100 * 100 + n4 * 4 + n1
      in if n1 = 4 \<or> n100 = 4 then (y - 1, 12, 31)
         else (y, month_and_day (n1 = 3 \<and> (n4 \<noteq> 24 \<or> n100 = 3)) n))"

definition max_ordinal :: int where
  "max_ordinal = 3652059"

definition us_per_day :: int where
  "us_per_day = 86400000000"

text \<open>The constructor check of \<^verbatim>\<open>datetime(...)\<close>: a \<^verbatim>\<open>ValueError\<close> outside these ranges.\<close>

definition valid_datetime :: "datetime \<Rightarrow> bool" where
  "valid_datetime d =
     (1 \<le> year d \<and> year d \<le> 9999 \<and> 1 \<le> month d \<and> month d \<le> 12
      \<and> 1 \<le> day d \<and> day d \<le> days_in_month (year d) (month d)
      \<and> 0 \<le> hour d \<and> hour d \<le> 23 \<and> 0 \<le> minute d \<and> minute d \<le> 59
      \<and> 0 \<le> second d \<and> second d \<le> 59
      \<and> 0 \<le> microsecond d \<and> microsecond d \<le> 999999)"

definition to_us :: "datetime \<Rightarrow> int" where
  "to_us d =
     (((ymd2ord (year d) (month d) (day d) * 24 + hour d) * 60 + minute d) * 60 + second d)
       * 1000000 + microsecond d"


definition from_us :: "int \<Rightarrow> datetime" where
  "from_us t =
     (let (y, m, dd) = ord2ymd (t div us_per_day);
          r = t mod us_per_day
      in \<lparr> year = y, month = m, day = dd,
           hour = r div 3600000000,
           minute = r mod 3600000000 div 60000000,
           second = r mod 60000000 div 1000000,
           microsecond = r mod 1000000 \<rparr>)"

text \<open>\<^verbatim>\<open>a <= b\<close>, \<^verbatim>\<open>a - b\<close> and \<^verbatim>\<open>a + delta\<close> on naive datetimes. The sum raises
  \<^verbatim>\<open>OverflowError\<close> when its date leaves the years 1 to 9999.\<close>

definition dt_le :: "datetime \<Rightarrow> datetime \<Rightarrow> bool" where
  "dt_le a b = (to_us a \<le> to_us b)"

definition dt_sub :: "datetime \<Rightarrow> datetime \<Rightarrow> timedelta" where
  "dt_sub a b = to_us a - to_us b"

definition dt_add :: "datetime \<Rightarrow> timedelta \<Rightarrow> py_error + datetime" where
  "dt_add d delta =
     (let t = to_us d + delta
      in if 0 < t div us_per_day \<and> t div us_per_day \<le> max_ordinal
         then Inr (from_us t) else Inl OverflowError)"

text \<open>\<^verbatim>\<open>d.replace(year=y, month=m)\<close>: the other fields are kept and the constructor check
  runs again.\<close>

definition dt_replace :: "datetime \<Rightarrow> int \<Rightarrow> int \<Rightarrow> py_error + datetime" where
  "dt_replace d y m =
     (let d' = d\<lparr> year := y, month := m \<rparr>
      in if valid_datetime d' then Inr d' else Inl ValueError)"

section \<open>Parsing and formatting\<close>

text \<open>
  \<^verbatim>\<open>datetime.strptime\<close> compiles the format to a regular expression, matches it at the
  start of the text (alternatives in order, backtracking into earlier fields) and
  raises \<^verbatim>\<open>ValueError\<close> when nothing matches or text remains. A pattern is a sequence
  of literal characters and of fields; a field is an ordered list of alternatives, each
  a sequence of character classes.
\<close>

datatype re_item = Lit "char \<Rightarrow> bool" | Field "(char \<Rightarrow> bool) list list"

fun match_alt :: "(char \<Rightarrow> bool) list \<Rightarrow> string \<Rightarrow> (string \<times> string) option" where
  "match_alt [] s = Some ([], s)"
| "match_alt (p # ps) [] = None"
| "match_alt (p # ps) (c # cs) =
     (if p c then (case match_alt ps cs of
                     Some (cap, r) \<Rightarrow> Some (c # cap, r)
                   | None \<Rightarrow> None)
      else None)"

fun re_match :: "re_item list \<Rightarrow> string \<Rightarrow> (string list \<times> string) option"
  and try_alts :: "(char \<Rightarrow> bool) list list \<Rightarrow> re_item list \<Rightarrow> string
                    \<Rightarrow> (string list \<times> string) option" where
  "re_match [] s = Some ([], s)"
| "re_match (Lit p # its) [] = None"
| "re_match (Lit p # its) (c # cs) = (if p c then re_match its cs else None)"
| "re_match (Field alts # its) s = try_alts alts its s"
| "try_alts [] its s = None"
| "try_alts (a # as) its s =
     (case match_alt a s of
        None \<Rightarrow> try_alts as its s
      | Some (cap, r) \<Rightarrow>
          (case re_match its r of
             None \<Rightarrow> try_alts as its s
           | Some (caps, r') \<Rightarrow> Some (cap # caps, r')))"

definition is_digit :: "char \<Rightarrow> bool" where
  "is_digit c = (c \<in> set ''0123456789'')"

definition one_of :: "string \<Rightarrow> char \<Rightarrow> bool" where
  "one_of cs c = (c \<in> set cs)"

text \<open>The directives, as \<^verbatim>\<open>_strptime.TimeRE\<close> defines them:
  \<^verbatim>\<open>Y: \d\d\d\d\<close>, \<^verbatim>\<open>m: 1[0-2]|0[1-9]|[1-9]\<close>,
  \<^verbatim>\<open>d: 3[0-1]|[1-2]\d|0[1-9]|[1-9]| [1-9]\<close>, \<^verbatim>\<open>H: 2[0-3]|[0-1]\d|\d\<close>,
  \<^verbatim>\<open>M: [0-5]\d|\d\<close>, \<^verbatim>\<open>S: 6[0-1]|[0-5]\d|\d\<close>, \<^verbatim>\<open>f: [0-9]{1,6}\<close>.
  The expression is compiled with \<^verbatim>\<open>IGNORECASE\<close>, so the literal T also matches t.\<close>

definition re_Y :: re_item where
  "re_Y = Field [[is_digit, is_digit, is_digit, is_digit]]"

definition re_m :: re_item where
  "re_m = Field [[one_of ''1'', one_of ''012''], [one_of ''0'', one_of ''123456789''],
                 [one_of ''123456789'']]"

definition re_d :: re_item where
  "re_d = Field [[one_of ''3'', one_of ''01''], [one_of ''12'', is_digit],
                 [one_of ''0'', one_of ''123456789''], [one_of ''123456789''],
                 [one_of '' '', one_of ''123456789'']]"

definition re_H :: re_item where
  "re_H = Field [[one_of ''2'', one_of ''0123''], [one_of ''01'', is_digit], [is_digit]]"

definition re_M :: re_item where
  "re_M = Field [[one_of ''012345'', is_digit], [is_digit]]"

definition re_S :: re_item where
  "re_S = Field [[one_of ''6'', one_of ''01''], [one_of ''012345'', is_digit], [is_digit]]"

definition re_f :: re_item where
  "re_f = Field [replicate 6 is_digit, replicate 5 is_digit, replicate 4 is_digit,
                 replicate 3 is_digit, replicate 2 is_digit, replicate 1 is_digit]"

definition lit :: "char \<Rightarrow> re_item" where
  "lit c = Lit (\<lambda>x. x = c)"

datatype time_format = Fmt_datetime | Fmt_date | Fmt_datetime_frac

fun format_regex :: "time_format \<Rightarrow> re_item list" where
  "format_regex Fmt_datetime =
     [re_Y, lit CHR ''-'', re_m, lit CHR ''-'', re_d, Lit (one_of ''Tt''),
      re_H, lit CHR '':'', re_M, lit CHR '':'', re_S]"
| "format_regex Fmt_date = [re_Y, lit CHR ''-'', re_m, lit CHR ''-'', re_d]"
| "format_regex Fmt_datetime_frac =
     [re_Y, lit CHR ''-'', re_m, lit CHR ''-'', re_d, Lit (one_of ''Tt''),
      re_H, lit CHR '':'', re_M, lit CHR '':'', re_S, lit CHR ''.'', re_f]"

definition digit_val :: "char \<Rightarrow> int" where
  "digit_val c =
     (case map_of (zip ''0123456789'' [0, 1, 2, 3, 4, 5, 6, 7, 8, 9]) c of
        Some v \<Rightarrow> v
      | None \<Rightarrow> 0)"

text \<open>\<^verbatim>\<open>int(s)\<close> on a captured field: decimal digits after optional leading blanks.\<close>

definition py_int :: "string \<Rightarrow> int" where
  "py_int s = foldl (\<lambda>a c. 10 * a + digit_val c) 0 (dropWhile (\<lambda>c. c = CHR '' '') s)"

text \<open>The fraction is padded on the right to six digits.\<close>

definition py_fraction :: "string \<Rightarrow> int" where
  "py_fraction s = py_int (s @ replicate (6 - length s) CHR ''0'')"

definition build_datetime :: "int \<Rightarrow> int \<Rightarrow> int \<Rightarrow> int \<Rightarrow> int \<Rightarrow> int \<Rightarrow> int
    \<Rightarrow> py_error + datetime" where
  "build_datetime y m d h mi s us =
     (let dt = \<lparr> year = y, month = m, day = d, hour = h, minute = mi, second = s,
                  microsecond = us \<rparr>
      in if valid_datetime dt then Inr dt else Inl ValueError)"

definition strptime :: "string \<Rightarrow> time_format \<Rightarrow> py_error + datetime" where
  "strptime s fmt =
     (case re_match (format_regex fmt) s of
        None \<Rightarrow> Inl ValueError
      | Some (caps, rest) \<Rightarrow>
          if rest \<noteq> [] then Inl ValueError
          else (case caps of
                  [y, m, d] \<Rightarrow> build_datetime (py_int y) (py_int m) (py_int d) 0 0 0 0
                | [y, m, d, h, mi, sec] \<Rightarrow>
                    build_datetime (py_int y) (py_int m) (py_int d)
                      (py_int h) (py_int mi) (py_int sec) 0
                | [y, m, d, h, mi, sec, f] \<Rightarrow>
                    build_datetime (py_int y) (py_int m) (py_int d)
                      (py_int h) (py_int mi) (py_int sec) (py_fraction f)
                | _ \<Rightarrow> Inl ValueError))"

text \<open>The loop over the three formats of \<^verbatim>\<open>parse_datetime\<close>: a \<^verbatim>\<open>ValueError\<close> moves
  on to the next format, and the function raises \<^verbatim>\<open>ValueError\<close> after the last.\<close>

fun try_formats :: "time_format list \<Rightarrow> string \<Rightarrow> py_error + datetime" where
  "try_formats [] s = Inl ValueError"
| "try_formats (fmt # fmts) s =
     (case strptime s fmt of
        Inr dt \<Rightarrow> Inr dt
      | Inl e \<Rightarrow> try_formats fmts s)"

definition formats :: "time_format list" where
  "formats = [Fmt_datetime, Fmt_date, Fmt_datetime_frac]"

text \<open>\<^verbatim>\<open>parse_datetime\<close>. The result \<open>None\<close> is Python's \<^verbatim>\<open>None\<close> for a falsy
  argument. A truthy argument that is not a string raises at the first string method
  (\<^verbatim>\<open>AttributeError\<close>) or inside \<^verbatim>\<open>strptime\<close> (\<^verbatim>\<open>TypeError\<close>, which the loop over the
  formats does not catch).\<close>

definition parse_datetime :: "jval \<Rightarrow> py_error + datetime option" where
  "parse_datetime v =
     (if \<not> truthy v then Inr None
      else case py_contains CHR ''+'' v of
        Inl e \<Rightarrow> Inl e
      | Inr True \<Rightarrow>
          (case v of
             JStr s \<Rightarrow> map_sum id Some (try_formats formats (split_plus_0 s))
           | _ \<Rightarrow> Inl AttributeError)
      | Inr False \<Rightarrow>
          (case py_contains CHR ''Z'' v of
             Inl e \<Rightarrow> Inl e
           | Inr True \<Rightarrow>
               (case v of
                  JStr s \<Rightarrow> map_sum id Some (try_formats formats (remove_Z s))
                | _ \<Rightarrow> Inl AttributeError)
           | Inr False \<Rightarrow>
               (case v of
                  JStr s \<Rightarrow> map_sum id Some (try_formats formats s)
                | _ \<Rightarrow> Inl TypeError)))"

text \<open>
  Two things are the Python runtime's and not the program's: the text that \<^verbatim>\<open>str()\<close>
  gives for a value that is not a string (used when an f-string formats such a value),
  and whether the C library behind \<^verbatim>\<open>strftime\<close> pads a year below 1000 with zeros
  (\<^verbatim>\<open>0999\<close>) or not (\<^verbatim>\<open>999\<close>). Both are parameters of the model.
\<close>

record runtime =
  str_of :: "jval \<Rightarrow> string"
  pads_year :: bool

definition py_str :: "runtime \<Rightarrow> jval \<Rightarrow> string" where
  "py_str rt v = (case v of JStr s \<Rightarrow> s | _ \<Rightarrow> str_of rt v)"

text \<open>\<^verbatim>\<open>strftime\<close> with \<^verbatim>\<open>%Y-%m-%dT%H:%M:%S\<close> and with \<^verbatim>\<open>%Y%m%d\<close>: every field but the
  year on two digits.\<close>

definition digit_char :: "int \<Rightarrow> char" where
  "digit_char n = ''0123456789'' ! nat (n mod 10)"

definition pad2 :: "int \<Rightarrow> string" where
  "pad2 n = [digit_char (n div 10 mod 10), digit_char (n mod 10)]"

definition pad4 :: "int \<Rightarrow> string" where
  "pad4 n = [digit_char (n div 1000 mod 10), digit_char (n div 100 mod 10),
             digit_char (n div 10 mod 10), digit_char (n mod 10)]"

definition fmt_year :: "runtime \<Rightarrow> int \<Rightarrow> string" where
  "fmt_year rt y =
     (if pads_year rt \<or> 1000 \<le> y then pad4 y
      else dropWhile (\<lambda>c. c = CHR ''0'') (pad4 y))"

definition strftime_iso :: "runtime \<Rightarrow> datetime \<Rightarrow> string" where
  "strftime_iso rt d =
     fmt_year rt (year d) @ ''-'' @ pad2 (month d) @ ''-'' @ pad2 (day d) @ ''T''
       @ pad2 (hour d) @ '':'' @ pad2 (minute d) @ '':'' @ pad2 (second d)"

definition strftime_ymd :: "runtime \<Rightarrow> datetime \<Rightarrow> string" where
  "strftime_ymd rt d = fmt_year rt (year d) @ pad2 (month d) @ pad2 (day d)"

section \<open>Random identifiers and the console\<close>

text \<open>
  \<^verbatim>\<open>str(uuid.uuid4())[:8]\<close> is the first 32 random bits of a fresh UUID in lower-case
  hexadecimal. The world holds the stream of these draws, the number already taken and
  the lines printed so far; every function that draws or prints returns the new world.
\<close>

datatype log_line =
    Log_skipping jval
  | Log_unknown_pattern string
  | Log_generated nat jval
  | Log_error jval py_error
  | Log_processing
  | Log_input nat
  | Log_processed nat
  | Log_output nat

record world =
  rand :: "nat \<Rightarrow> 32 word"
  drawn :: nat
  out :: "log_line list"

definition print :: "log_line \<Rightarrow> world \<Rightarrow> world" where
  "print l w = w\<lparr> out := out w @ [l] \<rparr>"

definition hex_char :: "nat \<Rightarrow> char" where
  "hex_char n = ''0123456789abcdef'' ! (n mod 16)"

definition hex8 :: "32 word \<Rightarrow> string" where
  "hex8 x = map (\<lambda>k. hex_char (unat (drop_bit k x))) [28, 24, 20, 16, 12, 8, 4, 0]"

definition uuid8 :: "world \<Rightarrow> string \<times> world" where
  "uuid8 w = (hex8 (rand w (drawn w)), w\<lparr> drawn := Suc (drawn w) \<rparr>)"

section \<open>The recurrence expander\<close>

text \<open>Lines 82 to 87: the timezone literal taken from the master's start time.\<close>

definition tz_suffix :: "jval \<Rightarrow> py_error + string" where
  "tz_suffix v =
     (case py_contains CHR ''+'' v of
        Inl e \<Rightarrow> Inl e
      | Inr True \<Rightarrow>
          (case v of JStr s \<Rightarrow> Inr (''+'' @ split_plus_1 s) | _ \<Rightarrow> Inl AttributeError)
      | Inr False \<Rightarrow>
          (case py_contains CHR ''Z'' v of
             Inl e \<Rightarrow> Inl e
           | Inr True \<Rightarrow> Inr ''Z''
           | Inr False \<Rightarrow> Inr ''+00:00''))"

text \<open>Lines 93 to 98: the identifier of the instance. A missing or falsy \<^verbatim>\<open>iCalUld\<close>
  is replaced by title, date and a random suffix (the title must have \<^verbatim>\<open>lower\<close>);
  an existing one gets the date appended.\<close>

definition set_uid :: "runtime \<Rightarrow> pydict \<Rightarrow> pydict \<Rightarrow> datetime \<Rightarrow> world
    \<Rightarrow> (py_error + pydict) \<times> world" where
  "set_uid rt master inst current w =
     (if \<not> truthy (dict_get inst ''iCalUld'' JNull)
      then (case py_lower (dict_get master ''title'' (JStr ''event'')) of
              Inl e \<Rightarrow> (Inl e, w)
            | Inr t \<Rightarrow>
                let base_uid = spaces_to_underscores t;
                    (u, w') = uuid8 w
                in (Inr (dict_set inst ''iCalUld''
                      (JStr (base_uid @ ''_'' @ strftime_ymd rt current @ ''_'' @ u))), w'))
      else (Inr (dict_set inst ''iCalUld''
              (JStr (py_str rt (dict_get inst ''iCalUld'' JNull) @ ''_''
                       @ strftime_ymd rt current))), w))"

text \<open>Lines 76 to 102: one pass of the loop body up to \<^verbatim>\<open>instances.append\<close>. The default
  of the last \<^verbatim>\<open>get\<close> is an argument, so its UUID is drawn whether or not the master has
  the key.\<close>

definition make_instance :: "runtime \<Rightarrow> pydict \<Rightarrow> jval \<Rightarrow> timedelta \<Rightarrow> datetime \<Rightarrow> world
    \<Rightarrow> (py_error + pydict) \<times> world" where
  "make_instance rt master start_time_str event_duration current w =
     (case dt_add current event_duration of
        Inl e \<Rightarrow> (Inl e, w)
      | Inr instance_end \<Rightarrow>
          (case tz_suffix start_time_str of
             Inl e \<Rightarrow> (Inl e, w)
           | Inr tz \<Rightarrow>
               let i1 = dict_set master ''startTime'' (JStr (strftime_iso rt current @ tz));
                   i2 = dict_set i1 ''endTime'' (JStr (strftime_iso rt instance_end @ tz))
               in (case set_uid rt master i2 current w of
                     (Inl e, w') \<Rightarrow> (Inl e, w')
                   | (Inr i3, w') \<Rightarrow>
                       let i4 = dict_set i3 ''isRecurringInstance'' (JBool True);
                           (u, w'') = uuid8 w';
                           i5 = dict_set i4 ''recurringMasterId''
                                  (dict_get master ''iCalUld'' (JStr (''master_'' @ u)))
                       in (Inr i5, w''))))"

text \<open>Lines 108 to 122: the next occurrence; \<open>None\<close> is the \<^verbatim>\<open>break\<close> on an unknown
  pattern.\<close>

definition advance :: "string \<Rightarrow> datetime \<Rightarrow> py_error + datetime option" where
  "advance recurrence current =
     (if recurrence = ''weekly'' then map_sum id Some (dt_add current (7 * us_per_day))
      else if recurrence = ''daily'' then map_sum id Some (dt_add current us_per_day)
      else if recurrence = ''monthly'' then
        (if month current = 12
         then map_sum id Some (dt_replace current (year current + 1) 1)
         else map_sum id Some (dt_replace current (year current) (month current + 1)))
      else if recurrence = ''yearly'' then
        map_sum id Some (dt_replace current (year current + 1) (month current))
      else Inr None)"

definition max_instances :: nat where
  "max_instances = 100"

text \<open>Lines 74 to 122: the \<^verbatim>\<open>while\<close> loop. An exception leaves the loop with the world
  as it is at that point.\<close>

function expand_loop :: "runtime \<Rightarrow> pydict \<Rightarrow> string \<Rightarrow> jval \<Rightarrow> timedelta \<Rightarrow> datetime
    \<Rightarrow> datetime \<Rightarrow> nat \<Rightarrow> pydict list \<Rightarrow> world \<Rightarrow> (py_error + pydict list) \<times> world" where
  "expand_loop rt master recurrence start_time_str event_duration recurrence_end
               current instance_count instances w =
     (if dt_le current recurrence_end \<and> instance_count < max_instances then
        (case make_instance rt master start_time_str event_duration current w of
           (Inl e, w') \<Rightarrow> (Inl e, w')
         | (Inr inst, w') \<Rightarrow>
             (case advance recurrence current of
                Inl e \<Rightarrow> (Inl e, w')
              | Inr None \<Rightarrow>
                  (Inr (instances @ [inst]), print (Log_unknown_pattern recurrence) w')
              | Inr (Some next) \<Rightarrow>
                  expand_loop rt master recurrence start_time_str event_duration
                    recurrence_end next (Suc instance_count) (instances @ [inst]) w'))
      else (Inr instances, w))"
  by pat_completeness auto
termination
  by (relation "measure (\<lambda>(rt, master, recurrence, start_time_str, event_duration,
        recurrence_end, current, instance_count, instances, w). max_instances - instance_count)")
     auto

declare expand_loop.simps [simp del]

text \<open>Lines 62 to 122: the body of the \<^verbatim>\<open>try\<close>. Arithmetic or comparison with \<^verbatim>\<open>None\<close>
  raises \<^verbatim>\<open>TypeError\<close>.\<close>

definition try_body :: "runtime \<Rightarrow> pydict \<Rightarrow> string \<Rightarrow> jval \<Rightarrow> jval \<Rightarrow> jval \<Rightarrow> world
    \<Rightarrow> (py_error + pydict list) \<times> world" where
  "try_body rt master recurrence start_time_str end_time_str recurrence_end_str w =
     (case parse_datetime start_time_str of
        Inl e \<Rightarrow> (Inl e, w)
      | Inr start_datetime \<Rightarrow>
     (case parse_datetime end_time_str of
        Inl e \<Rightarrow> (Inl e, w)
      | Inr end_datetime \<Rightarrow>
     (case parse_datetime recurrence_end_str of
        Inl e \<Rightarrow> (Inl e, w)
      | Inr recurrence_end \<Rightarrow>
     (case (start_datetime, end_datetime) of
        (Some s, Some e) \<Rightarrow>
          (case recurrence_end of
             None \<Rightarrow> (Inl TypeError, w)
           | Some r \<Rightarrow>
               expand_loop rt master recurrence start_time_str (dt_sub e s) r s 0 [] w)
      | _ \<Rightarrow> (Inl TypeError, w)))))"

text \<open>\<^verbatim>\<open>generate_recurring_instances\<close>. The call of \<^verbatim>\<open>lower\<close> on line 49 is outside the
  \<^verbatim>\<open>try\<close>, so its \<^verbatim>\<open>AttributeError\<close> leaves the function; every exception of the
  \<^verbatim>\<open>try\<close> body is caught and the master is returned.\<close>

definition title_of :: "pydict \<Rightarrow> jval" where
  "title_of master = dict_get master ''title'' (JStr ''Unknown'')"

definition generate_recurring_instances :: "runtime \<Rightarrow> pydict \<Rightarrow> world
    \<Rightarrow> (py_error + pydict list) \<times> world" where
  "generate_recurring_instances rt master_event w =
     (case py_lower (dict_get master_event ''recurrence'' (JStr [])) of
        Inl e \<Rightarrow> (Inl e, w)
      | Inr recurrence \<Rightarrow>
          if recurrence = ''none'' \<or> recurrence = [] then (Inr [master_event], w)
          else
            let start_time_str = dict_get master_event ''startTime'' (JStr []);
                end_time_str = dict_get master_event ''endTime'' (JStr []);
                recurrence_end_str = dict_get master_event ''recurrenceEndDate'' (JStr [])
            in if \<not> (truthy start_time_str \<and> truthy end_time_str \<and> truthy recurrence_end_str)
               then (Inr [master_event], print (Log_skipping (title_of master_event)) w)
               else
                 (case try_body rt master_event recurrence start_time_str end_time_str
                         recurrence_end_str w of
                    (Inr instances, w') \<Rightarrow>
                      (Inr instances,
                       print (Log_generated (length instances) (title_of master_event)) w')
                  | (Inl e, w') \<Rightarrow>
                      (Inr [master_event], print (Log_error (title_of master_event) e) w')))"

text \<open>The expander has expanded a master when it reached the \<^verbatim>\<open>try\<close> and the body ended
  without an exception: the instances are those the loop built.\<close>

definition successfully_expanded :: "runtime \<Rightarrow> pydict \<Rightarrow> world \<Rightarrow> pydict list \<Rightarrow> bool" where
  "successfully_expanded rt master_event w instances =
     (case py_lower (dict_get master_event ''recurrence'' (JStr [])) of
        Inl e \<Rightarrow> False
      | Inr recurrence \<Rightarrow>
          recurrence \<noteq> ''none'' \<and> recurrence \<noteq> []
          \<and> truthy (dict_get master_event ''startTime'' (JStr []))
          \<and> truthy (dict_get master_event ''endTime'' (JStr []))
          \<and> truthy (dict_get master_event ''recurrenceEndDate'' (JStr []))
          \<and> fst (try_body rt master_event recurrence
                    (dict_get master_event ''startTime'' (JStr []))
                    (dict_get master_event ''endTime'' (JStr []))
                    (dict_get master_event ''recurrenceEndDate'' (JStr [])) w) = Inr instances)"

section \<open>The batch processor\<close>

text \<open>\<^verbatim>\<open>expand_calendar_events\<close>: the \<^verbatim>\<open>for\<close> loop over the input with the list built so
  far and the count of recurring events. Entries that are falsy or not dictionaries
  are skipped. The \<^verbatim>\<open>lower\<close> of line 143 is not inside any \<^verbatim>\<open>try\<close>.\<close>

fun expand_events_loop :: "runtime \<Rightarrow> jval list \<Rightarrow> jval list \<Rightarrow> nat \<Rightarrow> world
    \<Rightarrow> (py_error + jval list \<times> nat) \<times> world" where
  "expand_events_loop rt [] expanded_events recurring_count w =
     (Inr (expanded_events, recurring_count), w)"
| "expand_events_loop rt (event # rest) expanded_events recurring_count w =
     (case event of
        JObj d \<Rightarrow>
          if \<not> truthy event then expand_events_loop rt rest expanded_events recurring_count w
          else
            (case py_lower (dict_get d ''recurrence'' (JStr [])) of
               Inl e \<Rightarrow> (Inl e, w)
             | Inr recurrence \<Rightarrow>
                 if recurrence \<noteq> [] \<and> recurrence \<noteq> ''none'' then
                   (case generate_recurring_instances rt d w of
                      (Inl e, w') \<Rightarrow> (Inl e, w')
                    | (Inr instances, w') \<Rightarrow>
                        expand_events_loop rt rest (expanded_events @ map JObj instances)
                          (Suc recurring_count) w')
                 else expand_events_loop rt rest (expanded_events @ [event]) recurring_count w)
      | _ \<Rightarrow> expand_events_loop rt rest expanded_events recurring_count w)"

definition expand_calendar_events :: "runtime \<Rightarrow> jval list \<Rightarrow> world
    \<Rightarrow> (py_error + jval list) \<times> world" where
  "expand_calendar_events rt input_data w =
     (case expand_events_loop rt input_data [] 0
             (print (Log_input (length input_data)) (print Log_processing w)) of
        (Inl e, w') \<Rightarrow> (Inl e, w')
      | (Inr (expanded_events, recurring_count), w') \<Rightarrow>
          (Inr expanded_events,
           print (Log_output (length expanded_events)) (print (Log_processed recurring_count) w')))"

section \<open>Example inputs\<close>

text \<open>The weekly event of the specification's example, a runtime and a world.\<close>

definition weekly_master :: pydict where
  "weekly_master =
     [(''recurrence'', JStr ''weekly''),
      (''startTime'', JStr ''2025-07-01T09:00:00+00:00''),
      (''endTime'', JStr ''2025-07-01T10:00:00+00:00''),
      (''recurrenceEndDate'', JStr ''2025-07-22'')]"

definition example_runtime :: runtime where
  "example_runtime = \<lparr> str_of = (\<lambda>v. ''<object>''), pads_year = False \<rparr>"

definition example_world :: world where
  "example_world = \<lparr> rand = (\<lambda>n. of_nat n), drawn = 0, out = [] \<rparr>"

definition july_1_9am :: datetime where
  "july_1_9am = \<lparr> year = 2025, month = 7, day = 1, hour = 9, minute = 0, second = 0,
                   microsecond = 0 \<rparr>"

text \<open>The instance of \<open>weekly_master\<close> on the given day of July 2025, made by a pass
  of the loop that takes the draws \<open>i\<close> and \<open>i + 1\<close> of the world \<open>w\<close>.\<close>

definition weekly_instance :: "world \<Rightarrow> string \<Rightarrow> nat \<Rightarrow> pydict" where
  "weekly_instance w dd i =
     [(''recurrence'', JStr ''weekly''),
      (''startTime'', JStr (''2025-07-'' @ dd @ ''T09:00:00+00:00'')),
      (''endTime'', JStr (''2025-07-'' @ dd @ ''T10:00:00+00:00'')),
      (''recurrenceEndDate'', JStr ''2025-07-22''),
      (''iCalUld'', JStr (''event_202507'' @ dd @ ''_'' @ hex8 (rand w i))),
      (''isRecurringInstance'', JBool True),
      (''recurringMasterId'', JStr (''master_'' @ hex8 (rand w (Suc i))))]"

text \<open>A weekly event whose recurrence ended before it starts.\<close>

definition expired_master :: pydict where
  "expired_master =
     [(''title'', JStr ''Retro''),
      (''recurrence'', JStr ''weekly''),
      (''startTime'', JStr ''2025-07-10T09:00:00Z''),
      (''endTime'', JStr ''2025-07-10T10:00:00Z''),
      (''recurrenceEndDate'', JStr ''2025-07-01'')]"



text \<open>A daily event that starts on a half second and occurs once.\<close>

definition fractional_master :: pydict where
  "fractional_master =
     [(''recurrence'', JStr ''daily''),
      (''startTime'', JStr ''2025-07-01T09:00:00.500000''),
      (''endTime'', JStr ''2025-07-01T10:00:00''),
      (''recurrenceEndDate'', JStr ''2025-07-01T12:00:00'')]"

text \<open>A weekly event that starts on the day its recurrence ends.\<close>

definition same_day_master :: pydict where
  "same_day_master =
     [(''title'', JStr ''Demo''),
      (''recurrence'', JStr ''weekly''),
      (''startTime'', JStr ''2025-07-22T09:00:00Z''),
      (''endTime'', JStr ''2025-07-22T10:00:00Z''),
      (''recurrenceEndDate'', JStr ''2025-07-22'')]"

text \<open>The weekly event with an \<^verbatim>\<open>iCalUld\<close> that is \<^verbatim>\<open>null\<close>, and its instance on the given
  day of July 2025 made by a pass that takes the draws \<open>i\<close> and \<open>i + 1\<close>.\<close>

definition null_uid_master :: pydict where
  "null_uid_master =
     [(''iCalUld'', JNull),
      (''recurrence'', JStr ''weekly''),
      (''startTime'', JStr ''2025-07-01T09:00:00+00:00''),
      (''endTime'', JStr ''2025-07-01T10:00:00+00:00''),
      (''recurrenceEndDate'', JStr ''2025-07-22'')]"

definition null_uid_instance :: "world \<Rightarrow> string \<Rightarrow> nat \<Rightarrow> pydict" where
  "null_uid_instance w dd i =
     [(''iCalUld'', JStr (''event_202507'' @ dd @ ''_'' @ hex8 (rand w i))),
      (''recurrence'', JStr ''weekly''),
      (''startTime'', JStr (''2025-07-'' @ dd @ ''T09:00:00+00:00'')),
      (''endTime'', JStr (''2025-07-'' @ dd @ ''T10:00:00+00:00'')),
      (''recurrenceEndDate'', JStr ''2025-07-22''),
      (''isRecurringInstance'', JBool True),
      (''recurringMasterId'', JNull)]"

section \<open>Evaluation lemmas\<close>

lemmas calendar_defs = dt_add_def dt_sub_def dt_le_def to_us_def from_us_def ymd2ord_def
  ord2ymd_def month_and_day_def days_before_year_def days_before_month_def days_before_month_table_def
  days_in_month_table_def is_leap_def us_per_day_def max_ordinal_def

lemmas instance_defs = make_instance_def tz_suffix_def split_plus_1_def strftime_iso_def
  strftime_ymd_def fmt_year_def pad4_def pad2_def digit_char_def set_uid_def dict_get_def
  uuid8_def spaces_to_underscores_def lower_str_def lower_char_def advance_def

lemma parse_july_1_9am:
  "parse_datetime (JStr ''2025-07-01T09:00:00+00:00'') = Inr (Some july_1_9am)"
  by code_simp

lemma parse_july_1_10am:
  "parse_datetime (JStr ''2025-07-01T10:00:00+00:00'') = Inr (Some (july_1_9am\<lparr>hour := 10\<rparr>))"
  by code_simp

lemma parse_july_22:
  "parse_datetime (JStr ''2025-07-22'') = Inr (Some (july_1_9am\<lparr>day := 22, hour := 0\<rparr>))"
  by code_simp

lemma weekly_try_body:
  "try_body rt weekly_master ''weekly'' (JStr ''2025-07-01T09:00:00+00:00'')
     (JStr ''2025-07-01T10:00:00+00:00'') (JStr ''2025-07-22'') w =
     (Inr [weekly_instance w ''01'' (drawn w), weekly_instance w ''08'' (Suc (Suc (drawn w))),
           weekly_instance w ''15'' (Suc (Suc (Suc (Suc (drawn w)))))],
      w\<lparr> drawn := Suc (Suc (Suc (Suc (Suc (Suc (drawn w)))))) \<rparr>)"
  unfolding try_body_def
  by (simp add: weekly_master_def weekly_instance_def parse_july_1_9am parse_july_1_10am
        parse_july_22 july_1_9am_def calendar_defs instance_defs Let_def max_instances_def
        expand_loop.simps)

lemma weekly_master_fields:
  "py_lower (dict_get weekly_master ''recurrence'' (JStr [])) = Inr ''weekly''"
  "dict_get weekly_master ''startTime'' (JStr []) = JStr ''2025-07-01T09:00:00+00:00''"
  "dict_get weekly_master ''endTime'' (JStr []) = JStr ''2025-07-01T10:00:00+00:00''"
  "dict_get weekly_master ''recurrenceEndDate'' (JStr []) = JStr ''2025-07-22''"
  "map_of weekly_master ''iCalUld'' = None"
  by (simp_all add: weekly_master_def dict_get_def lower_str_def lower_char_def)

lemma weekly_master_expansion:
  "generate_recurring_instances rt weekly_master w =
     (Inr [weekly_instance w ''01'' (drawn w), weekly_instance w ''08'' (Suc (Suc (drawn w))),
           weekly_instance w ''15'' (Suc (Suc (Suc (Suc (drawn w)))))],
      w\<lparr> drawn := Suc (Suc (Suc (Suc (Suc (Suc (drawn w)))))),
         out := out w @ [Log_generated 3 (JStr ''Unknown'')] \<rparr>)"
  by (simp add: generate_recurring_instances_def weekly_master_fields weekly_try_body
        print_def title_of_def)
     (simp add: weekly_master_def dict_get_def)

lemma weekly_master_expanded:
  "successfully_expanded rt weekly_master w
     [weekly_instance w ''01'' (drawn w), weekly_instance w ''08'' (Suc (Suc (drawn w))),
      weekly_instance w ''15'' (Suc (Suc (Suc (Suc (drawn w)))))]"
  by (simp add: successfully_expanded_def weekly_master_fields weekly_try_body)

section \<open>The loop is bounded\<close>

lemma expand_loop_length:
  "fst (expand_loop rt master r sv dur rend cur n insts w) = Inr xs \<Longrightarrow>
   length insts \<le> n \<Longrightarrow> n \<le> max_instances \<Longrightarrow> length xs \<le> max_instances"
proof (induction rt master r sv dur rend cur n insts w rule: expand_loop.induct)
  case (1 rt master r sv dur rend cur n insts w)
  show ?case
  proof (cases "dt_le cur rend \<and> n < max_instances")
    case False
    with "1.prems" show ?thesis by (simp add: expand_loop.simps)
  next
    case True
    show ?thesis
    proof (cases "make_instance rt master sv dur cur w")
      case (Pair res w')
      show ?thesis
      proof (cases res)
        case (Inl e)
        with True Pair "1.prems" show ?thesis by (simp add: expand_loop.simps)
      next
        case (Inr inst)
        show ?thesis
        proof (cases "advance r cur")
          case (Inl e)
          with True Pair Inr "1.prems" show ?thesis by (simp add: expand_loop.simps)
        next
          case adv: (Inr nx)
          show ?thesis
          proof (cases nx)
            case None
            with True Pair Inr adv "1.prems" show ?thesis by (auto simp add: expand_loop.simps)
          next
            case (Some nxt)
            have "fst (expand_loop rt master r sv dur rend nxt (Suc n) (insts @ [inst]) w')
                    = Inr xs"
              using True Pair Inr adv Some "1.prems"(1)
              by (simp add: expand_loop.simps[of rt master r sv dur rend cur n insts w])
            moreover have "length (insts @ [inst]) \<le> Suc n"
              using "1.prems"(2) by simp
            moreover have "Suc n \<le> max_instances"
              using True by simp
            ultimately show ?thesis
              using "1.IH"[OF True Pair[symmetric] Inr adv Some] by blast
          qed
        qed
      qed
    qed
  qed
qed

lemma try_body_Inr:
  "fst (try_body rt m r sv ev rv w) = Inr xs \<Longrightarrow>
   \<exists>dur rend cur. fst (expand_loop rt m r sv dur rend cur 0 [] w) = Inr xs"
  by (auto simp add: try_body_def split: sum.splits option.splits)

lemma generate_Inr:
  assumes a: "fst (generate_recurring_instances rt m w) = Inr xs"
  shows "xs = [m]
         \<or> (\<exists>r sv dur rend cur. fst (expand_loop rt m r sv dur rend cur 0 [] w) = Inr xs)"
proof (cases "py_lower (dict_get m ''recurrence'' (JStr []))")
  case (Inl e)
  with a show ?thesis by (simp add: generate_recurring_instances_def)
next
  case (Inr r)
  let ?sv = "dict_get m ''startTime'' (JStr [])"
  let ?ev = "dict_get m ''endTime'' (JStr [])"
  let ?rv = "dict_get m ''recurrenceEndDate'' (JStr [])"
  show ?thesis
  proof (cases "r = ''none'' \<or> r = [] \<or> \<not> (truthy ?sv \<and> truthy ?ev \<and> truthy ?rv)")
    case True
    with a Inr show ?thesis
      by (auto simp add: generate_recurring_instances_def Let_def split: if_splits)
  next
    case False
    obtain res w' where tb: "try_body rt m r ?sv ?ev ?rv w = (res, w')"
      by (cases "try_body rt m r ?sv ?ev ?rv w") blast
    show ?thesis
    proof (cases res)
      case (Inl e)
      with a Inr False tb show ?thesis
        by (simp add: generate_recurring_instances_def Let_def)
    next
      case ys: (Inr ys)
      with a Inr False tb have "xs = ys"
        by (simp add: generate_recurring_instances_def Let_def)
      with tb ys have "fst (try_body rt m r ?sv ?ev ?rv w) = Inr xs" by simp
      from try_body_Inr[OF this] show ?thesis by blast
    qed
  qed
qed

text \<open>
  C5. The loop is a total function: its recursion is justified by the measure
  \<open>max_instances - instance_count\<close>, so every call of the expander ends. Whenever the
  expander returns a sequence, the sequence has at most 100 elements.
\<close>

theorem expand_at_most_100:
  "fst (generate_recurring_instances rt master w) = Inr xs \<Longrightarrow> length xs \<le> 100"
proof -
  assume a: "fst (generate_recurring_instances rt master w) = Inr xs"
  from generate_Inr[OF a] show ?thesis
  proof
    assume "xs = [master]" then show ?thesis by simp
  next
    assume "\<exists>r sv dur rend cur. fst (expand_loop rt master r sv dur rend cur 0 [] w) = Inr xs"
    then obtain r sv dur rend cur where
      "fst (expand_loop rt master r sv dur rend cur 0 [] w) = Inr xs" by blast
    from expand_loop_length[OF this] show ?thesis by (simp add: max_instances_def)
  qed
qed

theorem expand_at_most_100_witness:
  "fst (generate_recurring_instances example_runtime weekly_master example_world)
     = Inr [weekly_instance example_world ''01'' (drawn example_world),
            weekly_instance example_world ''08'' (Suc (Suc (drawn example_world))),
            weekly_instance example_world ''15'' (Suc (Suc (Suc (Suc (drawn example_world)))))]
   \<and> length [weekly_instance example_world ''01'' (drawn example_world),
            weekly_instance example_world ''08'' (Suc (Suc (drawn example_world))),
            weekly_instance example_world ''15'' (Suc (Suc (Suc (Suc (drawn example_world)))))]
       \<le> 100"
proof -
  have h: "fst (generate_recurring_instances example_runtime weekly_master example_world)
     = Inr [weekly_instance example_world ''01'' (drawn example_world),
            weekly_instance example_world ''08'' (Suc (Suc (drawn example_world))),
            weekly_instance example_world ''15'' (Suc (Suc (Suc (Suc (drawn example_world)))))]"
    by (simp only: weekly_master_expansion fst_conv)
  show ?thesis
    using h expand_at_most_100[OF h] by simp
qed

section \<open>The identity law\<close>

text \<open>
  C7. An event whose \<^verbatim>\<open>recurrence\<close> field is absent, or is a string equal to
  \<^verbatim>\<open>none\<close> up to case, is returned alone and unchanged; nothing is printed and no
  random value is drawn.
\<close>

theorem expand_identity:
  assumes "map_of e ''recurrence'' = None
           \<or> (\<exists>s. map_of e ''recurrence'' = Some (JStr s) \<and> lower_str s = ''none'')"
  shows "generate_recurring_instances rt e w = (Inr [e], w)"
  using assms by (auto simp add: generate_recurring_instances_def dict_get_def lower_str_def)

theorem expand_identity_witness:
  "generate_recurring_instances example_runtime
     [(''title'', JStr ''Lunch''), (''recurrence'', JStr ''NoNe'')] example_world
   = (Inr [[(''title'', JStr ''Lunch''), (''recurrence'', JStr ''NoNe'')]], example_world)
   \<and> generate_recurring_instances example_runtime [(''title'', JStr ''Lunch'')] example_world
   = (Inr [[(''title'', JStr ''Lunch'')]], example_world)"
proof -
  have h1: "map_of [(''title'', JStr ''Lunch''), (''recurrence'', JStr ''NoNe'')] ''recurrence''
              = None
            \<or> (\<exists>s. map_of [(''title'', JStr ''Lunch''), (''recurrence'', JStr ''NoNe'')]
                      ''recurrence'' = Some (JStr s) \<and> lower_str s = ''none'')"
    by (simp add: lower_str_def lower_char_def)
  have h2: "map_of [(''title'', JStr ''Lunch'')] ''recurrence'' = None
            \<or> (\<exists>s. map_of [(''title'', JStr ''Lunch'')] ''recurrence'' = Some (JStr s)
                     \<and> lower_str s = ''none'')"
    by simp
  show ?thesis
    using expand_identity[OF h1] expand_identity[OF h2] by simp
qed

section \<open>A record that aborts the batch\<close>

text \<open>
  C3. A record whose \<^verbatim>\<open>recurrence\<close> is \<^verbatim>\<open>null\<close> makes line 143 call \<^verbatim>\<open>lower\<close> on
  \<^verbatim>\<open>None\<close>: the \<^verbatim>\<open>AttributeError\<close> leaves \<^verbatim>\<open>expand_calendar_events\<close>, and the records
  before and after it are lost with it.
\<close>

theorem batch_aborted_by_null_recurrence:
  "fst (expand_calendar_events rt
          [JObj [(''title'', JStr ''Standup'')],
           JObj [(''title'', JStr ''Review''), (''recurrence'', JNull)],
           JObj [(''title'', JStr ''Lunch'')]] w)
   = Inl AttributeError"
  by (simp add: expand_calendar_events_def dict_get_def lower_str_def generate_recurring_instances_def)

section \<open>The weekly example\<close>

text \<open>
  C1. On the weekly event from 2025-07-01T09:00:00+00:00 to 2025-07-01T10:00:00+00:00
  with \<^verbatim>\<open>recurrenceEndDate\<close> 2025-07-22 the expander returns three instances, on
  07-01, 07-08 and 07-15, each one hour long. The end date parses to midnight of
  07-22, so the occurrence of 07-22 at 09:00 is after it and the loop stops.
\<close>

theorem weekly_example_three_instances:
  "fst (generate_recurring_instances rt weekly_master w) =
     Inr [weekly_instance w ''01'' (drawn w), weekly_instance w ''08'' (Suc (Suc (drawn w))),
          weekly_instance w ''15'' (Suc (Suc (Suc (Suc (drawn w)))))]
   \<and> map (\<lambda>i. (map_of i ''startTime'', map_of i ''endTime''))
         [weekly_instance w ''01'' (drawn w), weekly_instance w ''08'' (Suc (Suc (drawn w))),
          weekly_instance w ''15'' (Suc (Suc (Suc (Suc (drawn w)))))] =
       [(Some (JStr ''2025-07-01T09:00:00+00:00''), Some (JStr ''2025-07-01T10:00:00+00:00'')),
        (Some (JStr ''2025-07-08T09:00:00+00:00''), Some (JStr ''2025-07-08T10:00:00+00:00'')),
        (Some (JStr ''2025-07-15T09:00:00+00:00''), Some (JStr ''2025-07-15T10:00:00+00:00''))]"
  by (simp add: weekly_master_expansion weekly_instance_def)

section \<open>Facts about one pass of the loop\<close>

lemma map_of_dict_set:
  "map_of (dict_set d k v) k' = (if k' = k then Some v else map_of d k')"
  by (induction d) auto

lemma set_uid_world:
  assumes "set_uid rt m inst c w = (Inr inst', w')"
  shows "rand w' = rand w \<and> out w' = out w
         \<and> drawn w' = drawn w + (if truthy (dict_get inst ''iCalUld'' JNull) then 0 else 1)
         \<and> (\<forall>k. k \<noteq> ''iCalUld'' \<longrightarrow> map_of inst' k = map_of inst k)"
  using assms
  by (auto simp add: set_uid_def uuid8_def Let_def map_of_dict_set
        split: if_splits sum.splits)

lemma make_instance_fields:
  assumes "make_instance rt m sv dur c w = (Inr inst, w1)"
  shows "\<exists>e tz. dt_add c dur = Inr e \<and> tz_suffix sv = Inr tz
           \<and> map_of inst ''startTime'' = Some (JStr (strftime_iso rt c @ tz))
           \<and> map_of inst ''endTime'' = Some (JStr (strftime_iso rt e @ tz))
           \<and> map_of inst ''isRecurringInstance'' = Some (JBool True)
           \<and> map_of inst ''recurringMasterId''
               = Some (dict_get m ''iCalUld'' (JStr (''master_'' @ hex8 (rand w (drawn w1 - 1)))))
           \<and> rand w1 = rand w \<and> out w1 = out w
           \<and> drawn w1 = drawn w + (if truthy (dict_get m ''iCalUld'' JNull) then 1 else 2)"
proof -
  from assms obtain e where e: "dt_add c dur = Inr e"
    by (cases "dt_add c dur") (auto simp add: make_instance_def)
  from assms e obtain tz where tz: "tz_suffix sv = Inr tz"
    by (cases "tz_suffix sv") (auto simp add: make_instance_def)
  let ?i2 = "dict_set (dict_set m ''startTime'' (JStr (strftime_iso rt c @ tz)))
               ''endTime'' (JStr (strftime_iso rt e @ tz))"
  obtain r w' where su: "set_uid rt m ?i2 c w = (r, w')"
    by (cases "set_uid rt m ?i2 c w") blast
  from assms e tz su obtain i3 where i3: "r = Inr i3"
    by (cases r) (auto simp add: make_instance_def Let_def)
  have g: "dict_get ?i2 ''iCalUld'' JNull = dict_get m ''iCalUld'' JNull"
    by (simp add: dict_get_def map_of_dict_set)
  from set_uid_world[OF su[unfolded i3]] g
  have w': "rand w' = rand w" "out w' = out w"
    "drawn w' = drawn w + (if truthy (dict_get m ''iCalUld'' JNull) then 0 else 1)"
    and keep: "\<And>k. k \<noteq> ''iCalUld'' \<Longrightarrow> map_of i3 k = map_of ?i2 k"
    by auto
  from assms e tz su i3
  have inst: "inst = dict_set (dict_set i3 ''isRecurringInstance'' (JBool True))
                ''recurringMasterId''
                (dict_get m ''iCalUld'' (JStr (''master_'' @ hex8 (rand w' (drawn w')))))"
    and w1: "w1 = w'\<lparr> drawn := Suc (drawn w') \<rparr>"
    by (auto simp add: make_instance_def Let_def uuid8_def)
  show ?thesis
    using e tz w' w1
    by (simp add: inst map_of_dict_set keep)
qed

section \<open>An invariant rule for the loop\<close>

text \<open>
  A property \<open>P k inst\<close> of the instance at position \<open>k\<close> holds for the whole result
  when every pass establishes it from an invariant \<open>I\<close> of the loop state (current date,
  count and world) that a pass followed by \<open>advance\<close> preserves.
\<close>

lemma expand_loop_indexed_aux:
  assumes "fst (expand_loop rt m r sv dur rend cur n insts w) = Inr xs"
    and "length insts = n"
    and "I cur n w"
    and "\<forall>c k w0 inst w1 c'. I c k w0 \<and> dt_le c rend
            \<and> make_instance rt m sv dur c w0 = (Inr inst, w1)
            \<and> advance r c = Inr (Some c') \<longrightarrow> I c' (Suc k) w1"
    and "\<forall>c k w0 inst w1. I c k w0 \<and> dt_le c rend
            \<and> make_instance rt m sv dur c w0 = (Inr inst, w1) \<longrightarrow> P k inst"
    and "\<forall>j<n. P j (insts ! j)"
  shows "\<forall>j<length xs. P j (xs ! j)"
  using assms
proof (induction rt m r sv dur rend cur n insts w rule: expand_loop.induct)
  case (1 rt m r sv dur rend cur n insts w)
  note eq = expand_loop.simps[of rt m r sv dur rend cur n insts w]
  note step = "1.prems"(4) and pass = "1.prems"(5)
  show ?case
  proof (cases "dt_le cur rend \<and> n < max_instances")
    case False
    with "1.prems" eq show ?thesis by auto
  next
    case True
    obtain res w' where mk: "make_instance rt m sv dur cur w = (res, w')"
      by (cases "make_instance rt m sv dur cur w") blast
    show ?thesis
    proof (cases res)
      case (Inl e)
      with True mk "1.prems"(1) eq show ?thesis by simp
    next
      case (Inr inst)
      have Pn: "P n inst"
        using pass "1.prems"(3) mk[unfolded Inr] True by blast
      have all': "\<forall>j<Suc n. P j ((insts @ [inst]) ! j)"
        using "1.prems"(2,6) Pn by (auto simp add: nth_append less_Suc_eq)
      show ?thesis
      proof (cases "advance r cur")
        case (Inl e)
        with True mk Inr "1.prems"(1) eq show ?thesis by simp
      next
        case adv: (Inr nx)
        show ?thesis
        proof (cases nx)
          case None
          with True mk Inr adv "1.prems"(1) eq have "xs = insts @ [inst]" by simp
          with all' "1.prems"(2) show ?thesis by simp
        next
          case (Some nxt)
          have a1: "fst (expand_loop rt m r sv dur rend nxt (Suc n) (insts @ [inst]) w') = Inr xs"
            using True mk Inr adv Some "1.prems"(1) eq by simp
          have a2: "length (insts @ [inst]) = Suc n"
            using "1.prems"(2) by simp
          have a3: "I nxt (Suc n) w'"
            using step "1.prems"(3) mk[unfolded Inr] adv[unfolded Some] True by blast
          show ?thesis
            using "1.IH"[OF True mk[symmetric] Inr adv Some a1 a2 a3 step pass all'] .
        qed
      qed
    qed
  qed
qed

lemma expand_loop_indexed:
  assumes "fst (expand_loop rt m r sv dur rend cur n insts w) = Inr xs"
    and "length insts = n"
    and "I cur n w"
    and step: "\<And>c k w0 inst w1 c'. I c k w0 \<Longrightarrow> dt_le c rend
            \<Longrightarrow> make_instance rt m sv dur c w0 = (Inr inst, w1)
            \<Longrightarrow> advance r c = Inr (Some c') \<Longrightarrow> I c' (Suc k) w1"
    and pass: "\<And>c k w0 inst w1. I c k w0 \<Longrightarrow> dt_le c rend
            \<Longrightarrow> make_instance rt m sv dur c w0 = (Inr inst, w1) \<Longrightarrow> P k inst"
    and "\<forall>j<n. P j (insts ! j)"
  shows "\<forall>j<length xs. P j (xs ! j)"
proof (rule expand_loop_indexed_aux[where I=I and P=P, OF assms(1,2,3) _ _ assms(6)])
  show "\<forall>c k w0 inst w1 c'. I c k w0 \<and> dt_le c rend
            \<and> make_instance rt m sv dur c w0 = (Inr inst, w1)
            \<and> advance r c = Inr (Some c') \<longrightarrow> I c' (Suc k) w1"
    using step by blast
  show "\<forall>c k w0 inst w1. I c k w0 \<and> dt_le c rend
            \<and> make_instance rt m sv dur c w0 = (Inr inst, w1) \<longrightarrow> P k inst"
    using pass by blast
qed

lemma expand_loop_all:
  assumes "fst (expand_loop rt m r sv dur rend cur 0 [] w) = Inr xs"
    and pass: "\<And>c w0 inst w1. make_instance rt m sv dur c w0 = (Inr inst, w1) \<Longrightarrow> P inst"
    and "i \<in> set xs"
  shows "P i"
proof -
  have "\<forall>j<length xs. P (xs ! j)"
    by (rule expand_loop_indexed[where I="\<lambda>c k w. True" and P="\<lambda>k. P", OF assms(1)])
       (auto intro: pass)
  with assms(3) show ?thesis by (auto simp add: in_set_conv_nth)
qed

section \<open>What an expansion consists of\<close>

lemma map_sum_Some_Inr:
  "(map_sum id Some x = Inr y) = (\<exists>d. x = Inr d \<and> y = Some d)"
  by (cases x) auto

lemma parse_datetime_Some_JStr:
  "parse_datetime v = Inr (Some d) \<Longrightarrow> \<exists>s. v = JStr s"
  by (cases v) (auto simp add: parse_datetime_def split: if_splits bool.splits)

lemma parse_datetime_truthy:
  "truthy v \<Longrightarrow> parse_datetime v = Inr x \<Longrightarrow> \<exists>d. x = Some d"
  by (cases v)
     (auto simp add: parse_datetime_def map_sum_Some_Inr split: if_splits bool.splits)

lemma try_body_loop:
  assumes "fst (try_body rt m r sv ev rv w) = Inr xs"
    and "truthy sv" "truthy ev" "truthy rv"
  shows "\<exists>s e rend. parse_datetime sv = Inr (Some s) \<and> parse_datetime ev = Inr (Some e)
           \<and> parse_datetime rv = Inr (Some rend)
           \<and> fst (expand_loop rt m r sv (dt_sub e s) rend s 0 [] w) = Inr xs"
proof -
  from assms(1) obtain ps where ps: "parse_datetime sv = Inr ps"
    by (cases "parse_datetime sv") (auto simp add: try_body_def)
  from assms(1) ps obtain pe where pe: "parse_datetime ev = Inr pe"
    by (cases "parse_datetime ev") (auto simp add: try_body_def)
  from assms(1) ps pe obtain pr where pr: "parse_datetime rv = Inr pr"
    by (cases "parse_datetime rv") (auto simp add: try_body_def)
  from parse_datetime_truthy[OF assms(2) ps] obtain s where s: "ps = Some s" by blast
  from parse_datetime_truthy[OF assms(3) pe] obtain e where e: "pe = Some e" by blast
  from parse_datetime_truthy[OF assms(4) pr] obtain rend where r: "pr = Some rend" by blast
  from assms(1) ps pe pr s e r
  have "fst (expand_loop rt m r sv (dt_sub e s) rend s 0 [] w) = Inr xs"
    by (simp add: try_body_def)
  with ps pe pr s e r show ?thesis by blast
qed

lemma successfully_expanded_loop:
  assumes "successfully_expanded rt m w xs"
  shows "\<exists>r str s e rend.
           py_lower (dict_get m ''recurrence'' (JStr [])) = Inr r
           \<and> r \<noteq> ''none'' \<and> r \<noteq> []
           \<and> dict_get m ''startTime'' (JStr []) = JStr str
           \<and> parse_datetime (JStr str) = Inr (Some s)
           \<and> parse_datetime (dict_get m ''endTime'' (JStr [])) = Inr (Some e)
           \<and> parse_datetime (dict_get m ''recurrenceEndDate'' (JStr [])) = Inr (Some rend)
           \<and> fst (expand_loop rt m r (JStr str) (dt_sub e s) rend s 0 [] w) = Inr xs"
proof -
  let ?sv = "dict_get m ''startTime'' (JStr [])"
  let ?ev = "dict_get m ''endTime'' (JStr [])"
  let ?rv = "dict_get m ''recurrenceEndDate'' (JStr [])"
  from assms obtain r where r: "py_lower (dict_get m ''recurrence'' (JStr [])) = Inr r"
    by (cases "py_lower (dict_get m ''recurrence'' (JStr []))")
       (auto simp add: successfully_expanded_def)
  from assms r have f: "r \<noteq> ''none''" "r \<noteq> []" "truthy ?sv" "truthy ?ev" "truthy ?rv"
    "fst (try_body rt m r ?sv ?ev ?rv w) = Inr xs"
    by (auto simp add: successfully_expanded_def)
  from try_body_loop[OF f(6) f(3) f(4) f(5)] obtain s e rend where
    p: "parse_datetime ?sv = Inr (Some s)" "parse_datetime ?ev = Inr (Some e)"
       "parse_datetime ?rv = Inr (Some rend)"
       "fst (expand_loop rt m r ?sv (dt_sub e s) rend s 0 [] w) = Inr xs"
    by blast
  from parse_datetime_Some_JStr[OF p(1)] obtain str where "?sv = JStr str" by blast
  with r f p show ?thesis by auto
qed

lemma successfully_expanded_returned:
  assumes "successfully_expanded rt m w xs"
  shows "fst (generate_recurring_instances rt m w) = Inr xs"
proof -
  from assms obtain r where r: "py_lower (dict_get m ''recurrence'' (JStr [])) = Inr r"
    by (cases "py_lower (dict_get m ''recurrence'' (JStr []))")
       (auto simp add: successfully_expanded_def)
  with assms show ?thesis
    by (auto simp add: successfully_expanded_def generate_recurring_instances_def Let_def
          split: prod.splits sum.splits)
qed

section \<open>The timezone literal\<close>

lemma split_plus_1_offset:
  assumes "CHR ''+'' \<notin> set body" "CHR ''+'' \<notin> set off"
  shows "split_plus_1 (body @ ''+'' @ off) = off"
proof -
  have "dropWhile (\<lambda>c. c \<noteq> CHR ''+'') (body @ CHR ''+'' # off) = CHR ''+'' # off"
    using assms(1) by (induction body) auto
  moreover have "takeWhile (\<lambda>c. c \<noteq> CHR ''+'') off = off"
    using assms(2) by (induction off) auto
  ultimately show ?thesis by (simp add: split_plus_1_def)
qed

text \<open>
  C6. Every instance of an expanded master carries start and end times that end with
  the timezone literal of the master's start time: the text from its first plus sign up
  to the next one (the whole offset when there is one plus sign), else Z when the
  start time contains a Z, else +00:00.
\<close>

theorem timezone_literal_preserved:
  assumes "successfully_expanded rt m w xs" and "i \<in> set xs"
  shows "fst (generate_recurring_instances rt m w) = Inr xs
         \<and> (\<exists>s tz a b. dict_get m ''startTime'' (JStr []) = JStr s
               \<and> tz = (if CHR ''+'' \<in> set s then ''+'' @ split_plus_1 s
                       else if CHR ''Z'' \<in> set s then ''Z'' else ''+00:00'')
               \<and> map_of i ''startTime'' = Some (JStr (a @ tz))
               \<and> map_of i ''endTime'' = Some (JStr (b @ tz))
               \<and> (\<forall>body off. s = body @ ''+'' @ off \<and> CHR ''+'' \<notin> set body
                      \<and> CHR ''+'' \<notin> set off \<longrightarrow> tz = ''+'' @ off))"
proof -
  from successfully_expanded_loop[OF assms(1)] obtain r str s e rend where
    sv: "dict_get m ''startTime'' (JStr []) = JStr str"
    and loop: "fst (expand_loop rt m r (JStr str) (dt_sub e s) rend s 0 [] w) = Inr xs"
    by blast
  let ?tz = "if CHR ''+'' \<in> set str then ''+'' @ split_plus_1 str
             else if CHR ''Z'' \<in> set str then ''Z'' else ''+00:00''"
  have tz: "tz_suffix (JStr str) = Inr ?tz"
    by (simp add: tz_suffix_def)
  have "\<exists>a b. map_of i ''startTime'' = Some (JStr (a @ ?tz))
             \<and> map_of i ''endTime'' = Some (JStr (b @ ?tz))"
  proof (rule expand_loop_all[OF loop _ assms(2)])
    fix c w0 inst w1
    assume "make_instance rt m (JStr str) (dt_sub e s) c w0 = (Inr inst, w1)"
    from make_instance_fields[OF this] tz
    show "\<exists>a b. map_of inst ''startTime'' = Some (JStr (a @ ?tz))
             \<and> map_of inst ''endTime'' = Some (JStr (b @ ?tz))"
      by auto
  qed
  then obtain a b where ab: "map_of i ''startTime'' = Some (JStr (a @ ?tz))"
    "map_of i ''endTime'' = Some (JStr (b @ ?tz))" by blast
  have verb: "\<forall>body off. str = body @ ''+'' @ off \<and> CHR ''+'' \<notin> set body
                \<and> CHR ''+'' \<notin> set off \<longrightarrow> ?tz = ''+'' @ off"
    using split_plus_1_offset by auto
  from successfully_expanded_returned[OF assms(1)] sv ab verb
  show ?thesis by blast
qed

theorem timezone_literal_preserved_witness:
  "fst (generate_recurring_instances example_runtime weekly_master example_world)
     = Inr [weekly_instance example_world ''01'' (drawn example_world),
            weekly_instance example_world ''08'' (Suc (Suc (drawn example_world))),
            weekly_instance example_world ''15'' (Suc (Suc (Suc (Suc (drawn example_world)))))]
   \<and> (\<exists>a b. map_of (weekly_instance example_world ''08'' (Suc (Suc (drawn example_world))))
                ''startTime'' = Some (JStr (a @ ''+00:00''))
           \<and> map_of (weekly_instance example_world ''08'' (Suc (Suc (drawn example_world))))
                ''endTime'' = Some (JStr (b @ ''+00:00'')))"
proof -
  let ?xs = "[weekly_instance example_world ''01'' (drawn example_world),
            weekly_instance example_world ''08'' (Suc (Suc (drawn example_world))),
            weekly_instance example_world ''15'' (Suc (Suc (Suc (Suc (drawn example_world)))))]"
  have h1: "successfully_expanded example_runtime weekly_master example_world ?xs"
    by (rule weekly_master_expanded)
  have h2: "weekly_instance example_world ''08'' (Suc (Suc (drawn example_world))) \<in> set ?xs"
    by simp
  have sp: "split_plus_1 ''2025-07-01T09:00:00+00:00'' = ''00:00''"
    by (simp add: split_plus_1_def)
  show ?thesis
    using timezone_literal_preserved[OF h1 h2]
    by (simp add: weekly_master_fields sp)
qed

section \<open>The identifier of the master\<close>

lemma expand_loop_master_id:
  assumes loop: "fst (expand_loop rt m r sv dur rend cur 0 [] w) = Inr xs"
    and k: "k < length xs"
  shows "map_of (xs ! k) ''recurringMasterId''
           = Some (case map_of m ''iCalUld'' of
                     Some v \<Rightarrow> v
                   | None \<Rightarrow> JStr (''master_'' @ hex8 (rand w (drawn w + 2 * k + 1))))"
proof (cases "map_of m ''iCalUld''")
  case (Some v)
  have "\<forall>j<length xs. map_of (xs ! j) ''recurringMasterId'' = Some v"
  proof (rule expand_loop_indexed[where I="\<lambda>c k w. True", OF loop])
    fix c k w0 inst w1
    assume "make_instance rt m sv dur c w0 = (Inr inst, w1)"
    from make_instance_fields[OF this] Some
    show "map_of inst ''recurringMasterId'' = Some v"
      by (auto simp add: dict_get_def)
  qed simp_all
  with k Some show ?thesis by simp
next
  case None
  then have falsy: "\<not> truthy (dict_get m ''iCalUld'' JNull)"
    by (simp add: dict_get_def)
  have "\<forall>j<length xs. map_of (xs ! j) ''recurringMasterId''
          = Some (JStr (''master_'' @ hex8 (rand w (drawn w + 2 * j + 1))))"
  proof (rule expand_loop_indexed[where
        I="\<lambda>c k w0. rand w0 = rand w \<and> drawn w0 = drawn w + 2 * k", OF loop])
    fix c k w0 inst w1 c'
    assume i: "rand w0 = rand w \<and> drawn w0 = drawn w + 2 * k"
      and mk: "make_instance rt m sv dur c w0 = (Inr inst, w1)"
    from make_instance_fields[OF mk] i falsy
    show "rand w1 = rand w \<and> drawn w1 = drawn w + 2 * Suc k"
      by auto
  next
    fix c k w0 inst w1
    assume i: "rand w0 = rand w \<and> drawn w0 = drawn w + 2 * k"
      and mk: "make_instance rt m sv dur c w0 = (Inr inst, w1)"
    from make_instance_fields[OF mk] i falsy None
    show "map_of inst ''recurringMasterId''
            = Some (JStr (''master_'' @ hex8 (rand w (drawn w + 2 * k + 1))))"
      by (auto simp add: dict_get_def)
  qed simp_all
  with k None show ?thesis by simp
qed

lemma hex8_1_3: "hex8 1 \<noteq> hex8 3"
  by code_simp

lemma null_uid_master_fields:
  "py_lower (dict_get null_uid_master ''recurrence'' (JStr [])) = Inr ''weekly''"
  "dict_get null_uid_master ''startTime'' (JStr []) = JStr ''2025-07-01T09:00:00+00:00''"
  "dict_get null_uid_master ''endTime'' (JStr []) = JStr ''2025-07-01T10:00:00+00:00''"
  "dict_get null_uid_master ''recurrenceEndDate'' (JStr []) = JStr ''2025-07-22''"
  "map_of null_uid_master ''iCalUld'' = Some JNull"
  "title_of null_uid_master = JStr ''Unknown''"
  by (simp_all add: null_uid_master_def dict_get_def lower_str_def lower_char_def title_of_def)

lemma null_uid_try_body:
  "try_body rt null_uid_master ''weekly'' (JStr ''2025-07-01T09:00:00+00:00'')
     (JStr ''2025-07-01T10:00:00+00:00'') (JStr ''2025-07-22'') w =
     (Inr [null_uid_instance w ''01'' (drawn w),
           null_uid_instance w ''08'' (Suc (Suc (drawn w))),
           null_uid_instance w ''15'' (Suc (Suc (Suc (Suc (drawn w)))))],
      w\<lparr> drawn := Suc (Suc (Suc (Suc (Suc (Suc (drawn w)))))) \<rparr>)"
  unfolding try_body_def
  by (simp add: null_uid_master_def null_uid_instance_def parse_july_1_9am parse_july_1_10am
        parse_july_22 july_1_9am_def calendar_defs instance_defs Let_def max_instances_def
        expand_loop.simps)

text \<open>
  A master whose \<^verbatim>\<open>iCalUld\<close> is \<^verbatim>\<open>null\<close> has no uid for line 93, which makes up the
  identifiers of its instances; yet line 102 finds the key and writes \<^verbatim>\<open>null\<close> as
  \<^verbatim>\<open>recurringMasterId\<close> on every instance: nothing is drawn for it, and the three
  instances share it.
\<close>

theorem null_uid_shares_master_id:
  "fst (generate_recurring_instances example_runtime null_uid_master example_world)
     = Inr [null_uid_instance example_world ''01'' (drawn example_world),
            null_uid_instance example_world ''08'' (Suc (Suc (drawn example_world))),
            null_uid_instance example_world ''15''
              (Suc (Suc (Suc (Suc (drawn example_world)))))]
   \<and> map_of null_uid_master ''iCalUld'' = Some JNull
   \<and> \<not> truthy JNull
   \<and> map_of (null_uid_instance example_world ''01'' (drawn example_world))
         ''recurringMasterId'' = Some JNull
   \<and> map_of (null_uid_instance example_world ''08'' (Suc (Suc (drawn example_world))))
         ''recurringMasterId'' = Some JNull
   \<and> map_of (null_uid_instance example_world ''15''
                (Suc (Suc (Suc (Suc (drawn example_world))))))
         ''recurringMasterId'' = Some JNull"
  by (simp add: generate_recurring_instances_def null_uid_master_fields null_uid_try_body)
     (simp add: null_uid_instance_def)

text \<open>
  C10, as amended. In an expanded master that has no key \<^verbatim>\<open>iCalUld\<close>, the instance at
  position \<open>k\<close> gets as \<^verbatim>\<open>recurringMasterId\<close> the text \<^verbatim>\<open>master_\<close> followed by a draw of
  its own, the draw number \<open>2 * k + 1\<close> after those already taken; and there are a
  master without the key and a sequence of draws for which two instances get different
  identifiers. In an expanded master that has the key, whatever its value (a uid, but
  also \<^verbatim>\<open>null\<close> or the empty string), every instance gets the master's value.
\<close>

theorem recurring_master_id_per_instance:
  "(\<forall>rt m w xs k. successfully_expanded rt m w xs \<and> k < length xs \<longrightarrow>
      fst (generate_recurring_instances rt m w) = Inr xs
      \<and> map_of (xs ! k) ''recurringMasterId''
          = Some (case map_of m ''iCalUld'' of
                    Some v \<Rightarrow> v
                  | None \<Rightarrow> JStr (''master_'' @ hex8 (rand w (drawn w + 2 * k + 1)))))
   \<and> (\<exists>rt m w xs. successfully_expanded rt m w xs \<and> map_of m ''iCalUld'' = None
         \<and> 1 < length xs
         \<and> map_of (xs ! 0) ''recurringMasterId'' \<noteq> map_of (xs ! 1) ''recurringMasterId'')"
proof (intro conjI allI impI)
  fix rt m w xs k
  assume a: "successfully_expanded rt m w xs \<and> k < length xs"
  then show "fst (generate_recurring_instances rt m w) = Inr xs"
    by (simp add: successfully_expanded_returned)
  from a successfully_expanded_loop[of rt m w xs] obtain r sv dur rend cur where
    "fst (expand_loop rt m r sv dur rend cur 0 [] w) = Inr xs" by blast
  from expand_loop_master_id[OF this] a
  show "map_of (xs ! k) ''recurringMasterId''
          = Some (case map_of m ''iCalUld'' of
                    Some v \<Rightarrow> v
                  | None \<Rightarrow> JStr (''master_'' @ hex8 (rand w (drawn w + 2 * k + 1))))"
    by blast
next
  let ?xs = "[weekly_instance example_world ''01'' (drawn example_world),
            weekly_instance example_world ''08'' (Suc (Suc (drawn example_world))),
            weekly_instance example_world ''15'' (Suc (Suc (Suc (Suc (drawn example_world)))))]"
  have "successfully_expanded example_runtime weekly_master example_world ?xs"
    by (rule weekly_master_expanded)
  moreover have "map_of weekly_master ''iCalUld'' = None"
    by (rule weekly_master_fields)
  moreover have "1 < length ?xs" by simp
  moreover have "map_of (?xs ! 0) ''recurringMasterId'' \<noteq> map_of (?xs ! 1) ''recurringMasterId''"
    using hex8_1_3 by (simp add: weekly_instance_def example_world_def)
  ultimately show "\<exists>rt m w xs. successfully_expanded rt m w xs \<and> map_of m ''iCalUld'' = None
         \<and> 1 < length xs
         \<and> map_of (xs ! 0) ''recurringMasterId'' \<noteq> map_of (xs ! 1) ''recurringMasterId''"
    by blast
qed

theorem recurring_master_id_per_instance_witness:
  "map_of (weekly_instance example_world ''01'' (drawn example_world)) ''recurringMasterId''
     = Some (JStr (''master_'' @ hex8 1))
   \<and> map_of (weekly_instance example_world ''08'' (Suc (Suc (drawn example_world))))
       ''recurringMasterId'' = Some (JStr (''master_'' @ hex8 3))
   \<and> hex8 1 \<noteq> hex8 3"
proof -
  let ?xs = "[weekly_instance example_world ''01'' (drawn example_world),
            weekly_instance example_world ''08'' (Suc (Suc (drawn example_world))),
            weekly_instance example_world ''15'' (Suc (Suc (Suc (Suc (drawn example_world)))))]"
  have h: "successfully_expanded example_runtime weekly_master example_world ?xs"
    by (rule weekly_master_expanded)
  have k0: "successfully_expanded example_runtime weekly_master example_world ?xs
            \<and> 0 < length ?xs" using h by simp
  have k1: "successfully_expanded example_runtime weekly_master example_world ?xs
            \<and> 1 < length ?xs" using h by simp
  note t = recurring_master_id_per_instance[THEN conjunct1, rule_format]
  show ?thesis
    using t[OF k0] t[OF k1] hex8_1_3
    by (simp add: weekly_master_fields example_world_def)
qed

section \<open>The calendar\<close>

lemma month_and_day_correct:
  assumes "0 \<le> n" and "n < 365 + (if L then 1 else 0)"
    and "month_and_day L n = (m, d)"
  shows "1 \<le> m \<and> m \<le> 12 \<and> 1 \<le> d
         \<and> d \<le> days_in_month_table m + (if m = 2 \<and> L then 1 else 0)
         \<and> days_before_month_table m + (if m > 2 \<and> L then 1 else 0) + d = n + 1"
proof -
  define e where "e = (n + 50) div 32"
  have lo: "32 * e \<le> n + 50" and hi: "n + 50 < 32 * e + 32"
    unfolding e_def by presburger+
  from lo hi assms(1,2) have "1 \<le> e" "e \<le> 12"
    by (auto split: if_splits)
  then have "e = 1 \<or> e = 2 \<or> e = 3 \<or> e = 4 \<or> e = 5 \<or> e = 6 \<or> e = 7
    \<or> e = 8 \<or> e = 9 \<or> e = 10 \<or> e = 11 \<or> e = 12"
    by presburger
  then consider "e = 1" | "e = 2" | "e = 3" | "e = 4" | "e = 5" | "e = 6" | "e = 7"
    | "e = 8" | "e = 9" | "e = 10" | "e = 11" | "e = 12"
    by blast
  then show ?thesis
    using lo hi assms
    by cases
       (auto simp add: month_and_day_def Let_def e_def[symmetric]
          days_before_month_table_def days_in_month_table_def split: if_splits)
qed

lemma year_divs:
  fixes a b c e :: int
  assumes "0 \<le> b" "b \<le> 3" "0 \<le> c" "c \<le> 24" "0 \<le> e" "e \<le> 3"
  shows "(400 * a + 100 * b + 4 * c + e) div 4 = 100 * a + 25 * b + c"
    and "(400 * a + 100 * b + 4 * c + e) mod 4 = e"
    and "(400 * a + 100 * b + 4 * c + e) div 100 = 4 * a + b"
    and "(400 * a + 100 * b + 4 * c + e) mod 100 = 4 * c + e"
    and "(400 * a + 100 * b + 4 * c + e) div 400 = a"
    and "(400 * a + 100 * b + 4 * c + e) mod 400 = 100 * b + 4 * c + e"
proof -
  show "(400 * a + 100 * b + 4 * c + e) div 4 = 100 * a + 25 * b + c"
    by (rule int_div_pos_eq[where r=e]) (use assms in auto)
  show "(400 * a + 100 * b + 4 * c + e) mod 4 = e"
    by (rule int_mod_pos_eq[where q="100 * a + 25 * b + c"]) (use assms in auto)
  show "(400 * a + 100 * b + 4 * c + e) div 100 = 4 * a + b"
    by (rule int_div_pos_eq[where r="4 * c + e"]) (use assms in auto)
  show "(400 * a + 100 * b + 4 * c + e) mod 100 = 4 * c + e"
    by (rule int_mod_pos_eq[where q="4 * a + b"]) (use assms in auto)
  show "(400 * a + 100 * b + 4 * c + e) div 400 = a"
    by (rule int_div_pos_eq[where r="100 * b + 4 * c + e"]) (use assms in auto)
  show "(400 * a + 100 * b + 4 * c + e) mod 400 = 100 * b + 4 * c + e"
    by (rule int_mod_pos_eq[where q=a]) (use assms in auto)
qed

lemma days_before_year_decomposed:
  fixes a b c e :: int
  assumes "0 \<le> b" "b \<le> 3" "0 \<le> c" "c \<le> 24" "0 \<le> e" "e \<le> 3"
  shows "days_before_year (400 * a + 100 * b + 4 * c + e + 1)
           = 146097 * a + 36524 * b + 1461 * c + 365 * e"
  using year_divs(1,3,5)[OF assms, of a]
  by (simp add: days_before_year_def)

lemma is_leap_decomposed:
  fixes a b c e :: int
  assumes "0 \<le> b" "b \<le> 3" "0 \<le> c" "c \<le> 24" "0 \<le> e" "e \<le> 3"
  shows "is_leap (400 * a + 100 * b + 4 * c + e + 1) = (e = 3 \<and> (c \<noteq> 24 \<or> b = 3))"
proof (cases "e = 3")
  case False
  with assms have e1: "0 \<le> e + 1" "e + 1 \<le> 3" by auto
  have "(400 * a + 100 * b + 4 * c + (e + 1)) mod 4 = e + 1"
    by (rule year_divs(2)[OF assms(1-4) e1])
  with False assms(5) show ?thesis by (simp add: is_leap_def add.assoc)
next
  case e: True
  show ?thesis
  proof (cases "c = 24")
    case False
    with assms have c1: "0 \<le> c + 1" "c + 1 \<le> 24" by auto
    have eq: "400 * a + 100 * b + 4 * c + e + 1 = 400 * a + 100 * b + 4 * (c + 1) + 0"
      using e by simp
    have "(400 * a + 100 * b + 4 * (c + 1) + 0) mod 4 = 0"
      "(400 * a + 100 * b + 4 * (c + 1) + 0) mod 100 = 4 * (c + 1) + 0"
      using year_divs(2,4)[OF assms(1,2) c1, of 0 a] by auto
    with False e c1 assms(3) show ?thesis unfolding eq is_leap_def by auto
  next
    case c: True
    show ?thesis
    proof (cases "b = 3")
      case False
      with assms have b1: "0 \<le> b + 1" "b + 1 \<le> 3" by auto
      have eq: "400 * a + 100 * b + 4 * c + e + 1 = 400 * a + 100 * (b + 1) + 4 * 0 + 0"
        using e c by simp
      have "(400 * a + 100 * (b + 1) + 4 * 0 + 0) mod 4 = 0"
        "(400 * a + 100 * (b + 1) + 4 * 0 + 0) mod 100 = 4 * 0 + 0"
        "(400 * a + 100 * (b + 1) + 4 * 0 + 0) mod 400 = 100 * (b + 1) + 4 * 0 + 0"
        using year_divs(2,4,6)[OF b1, of 0 0 a] by auto
      with False e c b1 assms(1) show ?thesis unfolding eq is_leap_def by auto
    next
      case b: True
      have eq: "400 * a + 100 * b + 4 * c + e + 1 = 400 * (a + 1)"
        using e c b by simp
      show ?thesis unfolding eq is_leap_def using e c b by simp
    qed
  qed
qed

lemma ord2ymd_correct:
  assumes "1 \<le> n" and "ord2ymd n = (y, m, d)"
  shows "1 \<le> y \<and> 1 \<le> m \<and> m \<le> 12 \<and> 1 \<le> d \<and> d \<le> days_in_month y m
         \<and> ymd2ord y m d = n"
proof -
  define N where "N = n - 1"
  define n400 where "n400 = N div 146097"
  define r1 where "r1 = N mod 146097"
  define n100 where "n100 = r1 div 36524"
  define r2 where "r2 = r1 mod 36524"
  define n4 where "n4 = r2 div 1461"
  define r3 where "r3 = r2 mod 1461"
  define n1 where "n1 = r3 div 365"
  define r4 where "r4 = r3 mod 365"
  have N0: "0 \<le> N" using assms(1) by (simp add: N_def)
  have e1: "N = 146097 * n400 + r1" "0 \<le> r1" "r1 < 146097" "0 \<le> n400"
    using N0 by (simp_all add: n400_def r1_def pos_imp_zdiv_nonneg_iff)
  have e2: "r1 = 36524 * n100 + r2" "0 \<le> r2" "r2 < 36524" "0 \<le> n100"
    using e1(2) by (simp_all add: n100_def r2_def pos_imp_zdiv_nonneg_iff)
  have e3: "r2 = 1461 * n4 + r3" "0 \<le> r3" "r3 < 1461" "0 \<le> n4"
    using e2(2) by (simp_all add: n4_def r3_def pos_imp_zdiv_nonneg_iff)
  have e4: "r3 = 365 * n1 + r4" "0 \<le> r4" "r4 < 365" "0 \<le> n1"
    using e3(2) by (simp_all add: n1_def r4_def pos_imp_zdiv_nonneg_iff)
  have b100: "n100 \<le> 4" using e1(3) e2(1,2) by linarith
  have b4: "n4 \<le> 24" using e2(3) e3(1,2) by linarith
  have b1: "n1 \<le> 4" using e3(3) e4(1,2) by linarith
  have c4: "n100 \<le> 3 \<Longrightarrow> n4 = 24 \<Longrightarrow> n1 \<le> 3"
    using e2(3) e3(1) e4(1,2) by linarith
  define Y0 where "Y0 = 400 * n400 + 100 * n100 + 4 * n4 + n1"
  have ord: "ord2ymd n =
      (if n1 = 4 \<or> n100 = 4 then (Y0, 12, 31)
       else (Y0 + 1, month_and_day (n1 = 3 \<and> (n4 \<noteq> 24 \<or> n100 = 3)) r4))"
    unfolding Y0_def r4_def n1_def r3_def n4_def r2_def n100_def r1_def n400_def N_def
    by (simp add: ord2ymd_def Let_def)
  have Nsum: "N = 146097 * n400 + 36524 * n100 + 1461 * n4 + 365 * n1 + r4"
    using e1(1) e2(1) e3(1) e4(1) by linarith
  show ?thesis
  proof (cases "n100 = 4")
    case True
    then have z: "r2 = 0" using e1(3) e2(1,2) by linarith
    then have z4: "n4 = 0" "n1 = 0" "r4 = 0"
      by (simp_all add: n4_def r3_def n1_def r4_def)
    have ymd: "y = 400 * n400 + 399 + 1" "m = 12" "d = 31"
      using assms(2) ord True z4 by (simp_all add: Y0_def)
    have y1: "y = 400 * (n400 + 1)" using ymd(1) by simp
    have dby: "days_before_year (400 * n400 + 100 * 3 + 4 * 24 + 3 + 1)
                 = 146097 * n400 + 36524 * 3 + 1461 * 24 + 365 * 3"
      by (rule days_before_year_decomposed) simp_all
    have leap: "is_leap y" unfolding y1 is_leap_def by simp
    have "ymd2ord y m d = n"
      using dby leap Nsum True z4 ymd
      by (simp add: ymd2ord_def days_before_month_def days_before_month_table_def N_def)
    moreover have "1 \<le> y" using ymd(1) e1(4) by simp
    ultimately show ?thesis
      using ymd by (simp add: days_in_month_def days_in_month_table_def)
  next
    case n100: False
    with b100 have b100': "n100 \<le> 3" by simp
    show ?thesis
    proof (cases "n1 = 4")
      case True
      then have z4: "r4 = 0" using e3(3) e4(1,2) by linarith
      from True c4[OF b100'] have n4': "n4 \<le> 23" using b4 by force
      have ymd: "y = Y0" "m = 12" "d = 31"
        using assms(2) ord True by simp_all
      have y1: "y = 400 * n400 + 100 * n100 + 4 * n4 + 3 + 1"
        using ymd(1) True by (simp add: Y0_def)
      have dby: "days_before_year y = 146097 * n400 + 36524 * n100 + 1461 * n4 + 365 * 3"
        unfolding y1 by (rule days_before_year_decomposed) (use e2 e3 b100' b4 in simp_all)
      have leap: "is_leap y"
        unfolding y1 using is_leap_decomposed[of n100 n4 3 n400] e2 e3 b100' b4 n4' by simp
      have "ymd2ord y m d = n"
        using dby leap Nsum True z4 ymd
        by (simp add: ymd2ord_def days_before_month_def days_before_month_table_def N_def)
      moreover have "1 \<le> y" using y1 e1(4) e2(4) e3(4) by simp
      ultimately show ?thesis
        using ymd by (simp add: days_in_month_def days_in_month_table_def)
    next
      case n1: False
      with b1 have b1': "n1 \<le> 3" by simp
      let ?L = "n1 = 3 \<and> (n4 \<noteq> 24 \<or> n100 = 3)"
      have y: "y = Y0 + 1" and md: "month_and_day ?L r4 = (m, d)"
        using assms(2) ord n100 n1 by simp_all
      have y1: "y = 400 * n400 + 100 * n100 + 4 * n4 + n1 + 1"
        using y by (simp add: Y0_def)
      have dby: "days_before_year y = 146097 * n400 + 36524 * n100 + 1461 * n4 + 365 * n1"
        unfolding y1 by (rule days_before_year_decomposed) (use e2 e3 e4 b100' b4 b1' in simp_all)
      have leap: "is_leap y = ?L"
        unfolding y1 by (rule is_leap_decomposed) (use e2 e3 e4 b100' b4 b1' in simp_all)
      have r4b: "r4 < 365 + (if ?L then 1 else 0)" using e4(3) by simp
      from month_and_day_correct[OF e4(2) r4b md]
      have mdc: "1 \<le> m" "m \<le> 12" "1 \<le> d"
        "d \<le> days_in_month_table m + (if m = 2 \<and> ?L then 1 else 0)"
        "days_before_month_table m + (if m > 2 \<and> ?L then 1 else 0) + d = r4 + 1"
        by simp_all
      have "ymd2ord y m d = n"
        using dby Nsum mdc(5) unfolding ymd2ord_def days_before_month_def leap N_def by linarith
      moreover have "d \<le> days_in_month y m"
        using mdc(4) unfolding days_in_month_def leap
        by (auto simp add: days_in_month_table_def split: if_splits)
      moreover have "1 \<le> y" using y1 e1(4) e2(4) e3(4) e4(4) by simp
      ultimately show ?thesis using mdc by simp
    qed
  qed
qed

lemma month_cases:
  fixes m :: int
  assumes "1 \<le> m" "m \<le> 12"
  shows "m = 1 \<or> m = 2 \<or> m = 3 \<or> m = 4 \<or> m = 5 \<or> m = 6 \<or> m = 7 \<or> m = 8 \<or> m = 9
         \<or> m = 10 \<or> m = 11 \<or> m = 12"
  using assms by presburger

lemma days_before_next_month:
  assumes "1 \<le> m" "m \<le> 11"
  shows "days_before_month y (m + 1) = days_before_month y m + days_in_month y m"
proof -
  from assms have "m = 1 \<or> m = 2 \<or> m = 3 \<or> m = 4 \<or> m = 5 \<or> m = 6 \<or> m = 7 \<or> m = 8
     \<or> m = 9 \<or> m = 10 \<or> m = 11" by presburger
  then show ?thesis
    by (elim disjE)
       (simp_all add: days_before_month_def days_in_month_def days_before_month_table_def
          days_in_month_table_def)
qed

lemma days_in_month_pos: "1 \<le> days_in_month y m"
  by (simp add: days_in_month_def days_in_month_table_def)

lemma days_before_month_mono:
  assumes "1 \<le> m" "m \<le> m'" "m' \<le> 12"
  shows "days_before_month y m \<le> days_before_month y m'"
  using assms(2,3)
proof (induction m' rule: int_ge_induct)
  case base
  show ?case by simp
next
  case (step i)
  then have "days_before_month y m \<le> days_before_month y i" by simp
  moreover have "days_before_month y (i + 1) = days_before_month y i + days_in_month y i"
    using step assms(1) by (intro days_before_next_month) auto
  ultimately show ?case using days_in_month_pos[of y i] by linarith
qed

lemma days_before_month_12:
  "days_before_month y 12 + days_in_month y 12 = 365 + (if is_leap y then 1 else 0)"
  by (simp add: days_before_month_def days_in_month_def days_before_month_table_def
        days_in_month_table_def)

lemma days_before_month_1: "days_before_month y 1 = 0"
  by (simp add: days_before_month_def days_before_month_table_def)

lemma day_of_year_range:
  assumes "1 \<le> m" "m \<le> 12" "1 \<le> d" "d \<le> days_in_month y m"
  shows "1 \<le> days_before_month y m + d"
    and "days_before_month y m + d \<le> 365 + (if is_leap y then 1 else 0)"
proof -
  have "days_before_month y 1 \<le> days_before_month y m"
    using assms(1,2) by (intro days_before_month_mono) auto
  then show "1 \<le> days_before_month y m + d"
    using assms(3) by (simp add: days_before_month_1)
  show "days_before_month y m + d \<le> 365 + (if is_leap y then 1 else 0)"
  proof (cases "m = 12")
    case True
    with assms(4) days_before_month_12[of y] show ?thesis by simp
  next
    case False
    with assms have m: "m \<le> 11" by simp
    have "days_before_month y m + d \<le> days_before_month y (m + 1)"
      using days_before_next_month[OF assms(1) m] assms(4) by simp
    also have "\<dots> \<le> days_before_month y 12"
      using assms(1) m by (intro days_before_month_mono) auto
    also have "\<dots> \<le> 365 + (if is_leap y then 1 else 0)"
      using days_before_month_12[of y] days_in_month_pos[of y 12] by linarith
    finally show ?thesis .
  qed
qed


lemma year_decompose:
  fixes Y :: int
  shows "\<exists>a b c e. Y = 400 * a + 100 * b + 4 * c + e
           \<and> 0 \<le> b \<and> b \<le> 3 \<and> 0 \<le> c \<and> c \<le> 24 \<and> 0 \<le> e \<and> e \<le> 3"
proof -
  define a where "a = Y div 400"
  define r where "r = Y mod 400"
  define b where "b = r div 100"
  define r' where "r' = r mod 100"
  define c where "c = r' div 4"
  define e where "e = r' mod 4"
  have e1: "Y = 400 * a + r" "0 \<le> r" "r < 400"
    by (simp_all add: a_def r_def)
  have e2: "r = 100 * b + r'" "0 \<le> r'" "r' < 100" "0 \<le> b"
    using e1(2) by (simp_all add: b_def r'_def pos_imp_zdiv_nonneg_iff)
  have e3: "r' = 4 * c + e" "0 \<le> e" "e < 4" "0 \<le> c"
    using e2(2) by (simp_all add: c_def e_def pos_imp_zdiv_nonneg_iff)
  have "b \<le> 3" using e1(3) e2(1,2) by linarith
  moreover have "c \<le> 24" using e2(3) e3(1,2) by linarith
  moreover have "Y = 400 * a + 100 * b + 4 * c + e" using e1(1) e2(1) e3(1) by linarith
  ultimately show ?thesis using e2(4) e3(2,3,4) by force
qed

lemma days_before_next_year:
  "days_before_year (y + 1) = days_before_year y + 365 + (if is_leap y then 1 else 0)"
proof -
  from year_decompose[of "y - 1"] obtain a b c e where
    Y: "y - 1 = 400 * a + 100 * b + 4 * c + e"
    and bd: "0 \<le> b" "b \<le> 3" "0 \<le> c" "c \<le> 24" "0 \<le> e" "e \<le> 3"
    by blast
  have y: "y = 400 * a + 100 * b + 4 * c + e + 1" using Y by simp
  have d0: "days_before_year y = 146097 * a + 36524 * b + 1461 * c + 365 * e"
    unfolding y by (rule days_before_year_decomposed[OF bd])
  have l0: "is_leap y = (e = 3 \<and> (c \<noteq> 24 \<or> b = 3))"
    unfolding y by (rule is_leap_decomposed[OF bd])
  show ?thesis
  proof (cases "e = 3")
    case False
    with bd have e1: "0 \<le> e + 1" "e + 1 \<le> 3" by auto
    have "days_before_year (400 * a + 100 * b + 4 * c + (e + 1) + 1)
            = 146097 * a + 36524 * b + 1461 * c + 365 * (e + 1)"
      by (rule days_before_year_decomposed[OF bd(1-4) e1])
    moreover have "y + 1 = 400 * a + 100 * b + 4 * c + (e + 1) + 1" using y by simp
    ultimately show ?thesis using d0 l0 False by simp
  next
    case e: True
    show ?thesis
    proof (cases "c = 24")
      case False
      with bd have c1: "0 \<le> c + 1" "c + 1 \<le> 24" by auto
      have "days_before_year (400 * a + 100 * b + 4 * (c + 1) + 0 + 1)
              = 146097 * a + 36524 * b + 1461 * (c + 1) + 365 * 0"
        by (rule days_before_year_decomposed[OF bd(1,2) c1]) simp_all
      moreover have "y + 1 = 400 * a + 100 * b + 4 * (c + 1) + 0 + 1" using y e by simp
      ultimately show ?thesis using d0 l0 False e by simp
    next
      case c: True
      show ?thesis
      proof (cases "b = 3")
        case False
        with bd have b1: "0 \<le> b + 1" "b + 1 \<le> 3" by auto
        have "days_before_year (400 * a + 100 * (b + 1) + 4 * 0 + 0 + 1)
                = 146097 * a + 36524 * (b + 1) + 1461 * 0 + 365 * 0"
          by (rule days_before_year_decomposed[OF b1]) simp_all
        moreover have "y + 1 = 400 * a + 100 * (b + 1) + 4 * 0 + 0 + 1" using y e c by simp
        ultimately show ?thesis using d0 l0 False e c by simp
      next
        case b: True
        have "days_before_year (400 * (a + 1) + 100 * 0 + 4 * 0 + 0 + 1)
                = 146097 * (a + 1) + 36524 * 0 + 1461 * 0 + 365 * 0"
          by (rule days_before_year_decomposed) simp_all
        moreover have "y + 1 = 400 * (a + 1) + 100 * 0 + 4 * 0 + 0 + 1" using y e c b by simp
        ultimately show ?thesis using d0 l0 e c b by simp
      qed
    qed
  qed
qed

lemma days_before_year_mono:
  "a \<le> b \<Longrightarrow> days_before_year a \<le> days_before_year b"
proof (induction b rule: int_ge_induct)
  case base
  show ?case by simp
next
  case (step i)
  with days_before_next_year[of i] show ?case by (simp split: if_splits)
qed

lemma days_before_year_bounds:
  "days_before_year 1 = 0" "days_before_year 10000 = 3652059"
  by (simp_all add: days_before_year_def)




lemma ord2ymd_year_le:
  assumes "1 \<le> n" "n \<le> max_ordinal" "ord2ymd n = (y, m, d)"
  shows "y \<le> 9999"
proof (rule ccontr)
  assume "\<not> y \<le> 9999"
  then have "days_before_year 10000 \<le> days_before_year y"
    by (intro days_before_year_mono) simp
  moreover from ord2ymd_correct[OF assms(1,3)] have "1 \<le> m" "m \<le> 12" "1 \<le> d"
    "d \<le> days_in_month y m" "ymd2ord y m d = n" by simp_all
  moreover from day_of_year_range(1)[OF this(1-4)] have "1 \<le> days_before_month y m + d" .
  ultimately show False
    using assms(2) by (simp add: ymd2ord_def days_before_year_bounds max_ordinal_def)
qed

text \<open>The time of day, in microseconds since midnight.\<close>

lemma time_of_day_split:
  fixes r :: int
  assumes "0 \<le> r" "r < 86400000000"
  shows "0 \<le> r div 3600000000 \<and> r div 3600000000 \<le> 23
         \<and> 0 \<le> r mod 3600000000 div 60000000 \<and> r mod 3600000000 div 60000000 \<le> 59
         \<and> 0 \<le> r mod 60000000 div 1000000 \<and> r mod 60000000 div 1000000 \<le> 59
         \<and> 0 \<le> r mod 1000000 \<and> r mod 1000000 \<le> 999999
         \<and> ((r div 3600000000 * 60 + r mod 3600000000 div 60000000) * 60
               + r mod 60000000 div 1000000) * 1000000 + r mod 1000000 = r"
proof -
  define h where "h = r div 3600000000"
  define ra where "ra = r mod 3600000000"
  define mi where "mi = ra div 60000000"
  define rb where "rb = ra mod 60000000"
  define s where "s = rb div 1000000"
  define rc where "rc = rb mod 1000000"
  have rb': "rb = r mod 60000000"
    unfolding rb_def ra_def by (rule mod_mod_cancel) simp
  have rc': "rc = r mod 1000000"
    unfolding rc_def rb' by (rule mod_mod_cancel) simp
  have e1: "r = 3600000000 * h + ra" "0 \<le> ra" "ra < 3600000000" "0 \<le> h"
    using assms(1) by (simp_all add: h_def ra_def pos_imp_zdiv_nonneg_iff)
  have e2: "ra = 60000000 * mi + rb" "0 \<le> rb" "rb < 60000000" "0 \<le> mi"
    using e1(2) by (simp_all add: mi_def rb_def pos_imp_zdiv_nonneg_iff)
  have e3: "rb = 1000000 * s + rc" "0 \<le> rc" "rc < 1000000" "0 \<le> s"
    using e2(2) by (simp_all add: s_def rc_def pos_imp_zdiv_nonneg_iff)
  have "h \<le> 23" using assms(2) e1(1,2) by linarith
  moreover have "mi \<le> 59" using e1(3) e2(1,2) by linarith
  moreover have "s \<le> 59" using e2(3) e3(1,2) by linarith
  moreover have "((h * 60 + mi) * 60 + s) * 1000000 + rc = r"
    using e1(1) e2(1) e3(1) by (simp add: algebra_simps)
  ultimately show ?thesis
    using e1(4) e2(4) e3(2,3,4)
    unfolding h_def[symmetric] ra_def[symmetric] mi_def[symmetric] rb'[symmetric]
      s_def[symmetric] rc'[symmetric]
    by simp
qed






lemma to_us_from_us:
  assumes "0 < t div us_per_day" "t div us_per_day \<le> max_ordinal"
  shows "valid_datetime (from_us t)" and "to_us (from_us t) = t"
    and "microsecond (from_us t) = t mod 1000000"
proof -
  define n where "n = t div us_per_day"
  define r where "r = t mod us_per_day"
  obtain y m d where o: "ord2ymd n = (y, m, d)" by (cases "ord2ymd n") blast
  have n1: "1 \<le> n" using assms(1) by (simp add: n_def)
  from ord2ymd_correct[OF n1 o] have c: "1 \<le> y" "1 \<le> m" "m \<le> 12" "1 \<le> d"
    "d \<le> days_in_month y m" "ymd2ord y m d = n" by simp_all
  have y: "y \<le> 9999" using ord2ymd_year_le[OF n1 _ o] assms(2) by (simp add: n_def)
  have r: "0 \<le> r" "r < 86400000000"
    by (simp_all add: r_def us_per_day_def)
  note s = time_of_day_split[OF r]
  have f: "from_us t = \<lparr> year = y, month = m, day = d,
           hour = r div 3600000000,
           minute = r mod 3600000000 div 60000000,
           second = r mod 60000000 div 1000000,
           microsecond = r mod 1000000 \<rparr>"
    by (simp add: from_us_def n_def[symmetric] r_def[symmetric] o)
  show "valid_datetime (from_us t)"
    unfolding f using c y s by (simp add: valid_datetime_def)
  have "to_us (from_us t) = us_per_day * n + r"
    unfolding f using c(6) s by (simp add: to_us_def us_per_day_def algebra_simps)
  then show "to_us (from_us t) = t" by (simp add: n_def r_def)
  have "r mod 1000000 = t mod 1000000"
    unfolding r_def us_per_day_def by (rule mod_mod_cancel) simp
  then show "microsecond (from_us t) = t mod 1000000" by (simp add: f)
qed

lemma dt_add_Inr:
  assumes "dt_add d delta = Inr d'"
  shows "valid_datetime d'" and "to_us d' = to_us d + delta"
    and "microsecond d' = (to_us d + delta) mod 1000000"
  using assms to_us_from_us[of "to_us d + delta"]
  by (auto simp add: dt_add_def Let_def split: if_splits)


section \<open>Parsed instants are valid\<close>







section \<open>The first pass of the loop\<close>

lemma expand_loop_prefix:
  "fst (expand_loop rt m r sv dur rend cur n insts w) = Inr xs \<Longrightarrow> length insts \<le> length xs"
proof (induction rt m r sv dur rend cur n insts w rule: expand_loop.induct)
  case (1 rt m r sv dur rend cur n insts w)
  note eq = expand_loop.simps[of rt m r sv dur rend cur n insts w]
  show ?case
  proof (cases "dt_le cur rend \<and> n < max_instances")
    case False
    with "1.prems" eq show ?thesis by auto
  next
    case True
    obtain res w' where mk: "make_instance rt m sv dur cur w = (res, w')"
      by (cases "make_instance rt m sv dur cur w") blast
    show ?thesis
    proof (cases res)
      case (Inl e)
      with True mk "1.prems" eq show ?thesis by simp
    next
      case (Inr inst)
      show ?thesis
      proof (cases "advance r cur")
        case (Inl e)
        with True mk Inr "1.prems" eq show ?thesis by simp
      next
        case adv: (Inr nx)
        show ?thesis
        proof (cases nx)
          case None
          with True mk Inr adv "1.prems" eq show ?thesis by auto
        next
          case (Some nxt)
          have "fst (expand_loop rt m r sv dur rend nxt (Suc n) (insts @ [inst]) w') = Inr xs"
            using True mk Inr adv Some "1.prems" eq by simp
          from "1.IH"[OF True mk[symmetric] Inr adv Some this] show ?thesis by simp
        qed
      qed
    qed
  qed
qed

lemma expand_loop_first_pass:
  assumes "fst (expand_loop rt m r sv dur rend cur 0 [] w) = Inr xs" and "dt_le cur rend"
  shows "1 \<le> length xs"
proof -
  note eq = expand_loop.simps[of rt m r sv dur rend cur 0 "[]" w]
  have c: "dt_le cur rend \<and> 0 < max_instances"
    using assms(2) by (simp add: max_instances_def)
  obtain res w' where mk: "make_instance rt m sv dur cur w = (res, w')"
    by (cases "make_instance rt m sv dur cur w") blast
  show ?thesis
  proof (cases res)
    case (Inl e)
    with c mk assms(1) eq show ?thesis by simp
  next
    case (Inr inst)
    show ?thesis
    proof (cases "advance r cur")
      case (Inl e)
      with c mk Inr assms(1) eq show ?thesis by simp
    next
      case adv: (Inr nx)
      show ?thesis
      proof (cases nx)
        case None
        with c mk Inr adv assms(1) eq show ?thesis by auto
      next
        case (Some nxt)
        have "fst (expand_loop rt m r sv dur rend nxt (Suc 0) ([] @ [inst]) w') = Inr xs"
          using c mk Inr adv Some assms(1) eq by simp
        from expand_loop_prefix[OF this] show ?thesis by simp
      qed
    qed
  qed
qed

lemma generate_Inr_expanded:
  assumes a: "fst (generate_recurring_instances rt m w) = Inr xs"
  shows "xs = [m] \<or> successfully_expanded rt m w xs"
proof (cases "py_lower (dict_get m ''recurrence'' (JStr []))")
  case (Inl e)
  with a show ?thesis by (simp add: generate_recurring_instances_def)
next
  case (Inr r)
  let ?sv = "dict_get m ''startTime'' (JStr [])"
  let ?ev = "dict_get m ''endTime'' (JStr [])"
  let ?rv = "dict_get m ''recurrenceEndDate'' (JStr [])"
  show ?thesis
  proof (cases "r = ''none'' \<or> r = [] \<or> \<not> (truthy ?sv \<and> truthy ?ev \<and> truthy ?rv)")
    case True
    with a Inr show ?thesis
      by (auto simp add: generate_recurring_instances_def Let_def split: if_splits)
  next
    case False
    obtain res w' where tb: "try_body rt m r ?sv ?ev ?rv w = (res, w')"
      by (cases "try_body rt m r ?sv ?ev ?rv w") blast
    show ?thesis
    proof (cases res)
      case (Inl e)
      with a Inr False tb show ?thesis
        by (simp add: generate_recurring_instances_def Let_def)
    next
      case ys: (Inr ys)
      with a Inr False tb have "xs = ys"
        by (simp add: generate_recurring_instances_def Let_def)
      with tb ys Inr False have "successfully_expanded rt m w xs"
        by (simp add: successfully_expanded_def)
      then show ?thesis by blast
    qed
  qed
qed

section \<open>The length of the result\<close>

text \<open>
  The result is empty only through the loop: whenever the expander returns, the
  sequence has at least one element, unless the master is recurring, its three time
  fields parse, and the parsed start is after the parsed end of the recurrence, so
  that the loop makes no pass.
\<close>

lemma expand_nonempty_unless_ended:
  assumes "fst (generate_recurring_instances rt m w) = Inr xs"
    and "\<not> (\<exists>r s e rend.
            py_lower (dict_get m ''recurrence'' (JStr [])) = Inr r
            \<and> r \<noteq> ''none'' \<and> r \<noteq> []
            \<and> parse_datetime (dict_get m ''startTime'' (JStr [])) = Inr (Some s)
            \<and> parse_datetime (dict_get m ''endTime'' (JStr [])) = Inr (Some e)
            \<and> parse_datetime (dict_get m ''recurrenceEndDate'' (JStr [])) = Inr (Some rend)
            \<and> \<not> dt_le s rend)"
  shows "1 \<le> length xs"
proof -
  from generate_Inr_expanded[OF assms(1)] show ?thesis
  proof
    assume "xs = [m]" then show ?thesis by simp
  next
    assume "successfully_expanded rt m w xs"
    from successfully_expanded_loop[OF this] obtain r str s e rend where
      f: "py_lower (dict_get m ''recurrence'' (JStr [])) = Inr r" "r \<noteq> ''none''" "r \<noteq> []"
        "dict_get m ''startTime'' (JStr []) = JStr str"
        "parse_datetime (JStr str) = Inr (Some s)"
        "parse_datetime (dict_get m ''endTime'' (JStr [])) = Inr (Some e)"
        "parse_datetime (dict_get m ''recurrenceEndDate'' (JStr [])) = Inr (Some rend)"
      and loop: "fst (expand_loop rt m r (JStr str) (dt_sub e s) rend s 0 [] w) = Inr xs"
      by blast
    from f assms(2) have "dt_le s rend" by auto
    from expand_loop_first_pass[OF loop this] show ?thesis .
  qed
qed

lemma parse_july_10_9am:
  "parse_datetime (JStr ''2025-07-10T09:00:00Z'') = Inr (Some (july_1_9am\<lparr>day := 10\<rparr>))"
  by code_simp

lemma parse_july_10_10am:
  "parse_datetime (JStr ''2025-07-10T10:00:00Z'')
     = Inr (Some (july_1_9am\<lparr>day := 10, hour := 10\<rparr>))"
  by code_simp

lemma parse_july_1:
  "parse_datetime (JStr ''2025-07-01'') = Inr (Some (july_1_9am\<lparr>hour := 0\<rparr>))"
  by code_simp

lemma expired_master_fields:
  "py_lower (dict_get expired_master ''recurrence'' (JStr [])) = Inr ''weekly''"
  "dict_get expired_master ''startTime'' (JStr []) = JStr ''2025-07-10T09:00:00Z''"
  "dict_get expired_master ''endTime'' (JStr []) = JStr ''2025-07-10T10:00:00Z''"
  "dict_get expired_master ''recurrenceEndDate'' (JStr []) = JStr ''2025-07-01''"
  "title_of expired_master = JStr ''Retro''"
  by (simp_all add: expired_master_def dict_get_def lower_str_def lower_char_def title_of_def)

text \<open>
  C2. On a weekly master whose recurrence ended before its start the loop of line 74
  makes no pass and line 125 returns the empty list: the sequence has length 0, where
  every other path that builds no instance (lines 51, 59 and 129) returns the master
  alone.
\<close>

theorem expired_master_yields_nothing:
  "generate_recurring_instances example_runtime expired_master example_world
     = (Inr [], example_world\<lparr> out := [Log_generated 0 (JStr ''Retro'')] \<rparr>)
   \<and> \<not> 1 \<le> length ([] :: pydict list)"
  by (simp add: generate_recurring_instances_def expired_master_fields try_body_def
        parse_july_10_9am parse_july_10_10am parse_july_1 expand_loop.simps
        dt_le_def to_us_def ymd2ord_def days_before_year_def days_before_month_def
        days_before_month_table_def july_1_9am_def print_def example_world_def)

lemma expand_nonempty_unless_ended_example:
  "fst (generate_recurring_instances example_runtime weekly_master example_world)
     = Inr [weekly_instance example_world ''01'' (drawn example_world),
            weekly_instance example_world ''08'' (Suc (Suc (drawn example_world))),
            weekly_instance example_world ''15'' (Suc (Suc (Suc (Suc (drawn example_world)))))]
   \<and> 1 \<le> length [weekly_instance example_world ''01'' (drawn example_world),
            weekly_instance example_world ''08'' (Suc (Suc (drawn example_world))),
            weekly_instance example_world ''15'' (Suc (Suc (Suc (Suc (drawn example_world)))))]"
proof -
  let ?xs = "[weekly_instance example_world ''01'' (drawn example_world),
            weekly_instance example_world ''08'' (Suc (Suc (drawn example_world))),
            weekly_instance example_world ''15'' (Suc (Suc (Suc (Suc (drawn example_world)))))]"
  have h1: "fst (generate_recurring_instances example_runtime weekly_master example_world)
              = Inr ?xs"
    by (simp only: weekly_master_expansion fst_conv)
  have h2: "\<not> (\<exists>r s e rend.
            py_lower (dict_get weekly_master ''recurrence'' (JStr [])) = Inr r
            \<and> r \<noteq> ''none'' \<and> r \<noteq> []
            \<and> parse_datetime (dict_get weekly_master ''startTime'' (JStr [])) = Inr (Some s)
            \<and> parse_datetime (dict_get weekly_master ''endTime'' (JStr [])) = Inr (Some e)
            \<and> parse_datetime (dict_get weekly_master ''recurrenceEndDate'' (JStr []))
                = Inr (Some rend)
            \<and> \<not> dt_le s rend)"
    by (simp add: weekly_master_fields parse_july_1_9am parse_july_1_10am parse_july_22
          dt_le_def to_us_def ymd2ord_def days_before_year_def days_before_month_def
          days_before_month_table_def july_1_9am_def)
  show ?thesis
    using h1 expand_nonempty_unless_ended[OF h1 h2] by simp
qed

text \<open>The same on any runtime and world; the batch processor then extends its list by
  nothing, and the event is gone from the output.\<close>

lemma expired_master_expansion:
  "generate_recurring_instances rt expired_master w
     = (Inr [], print (Log_generated 0 (JStr ''Retro'')) w)"
  by (simp add: generate_recurring_instances_def expired_master_fields try_body_def
        parse_july_10_9am parse_july_10_10am parse_july_1 expand_loop.simps
        dt_le_def to_us_def ymd2ord_def days_before_year_def days_before_month_def
        days_before_month_table_def july_1_9am_def)

lemma expired_master_dropped_by_batch:
  "fst (expand_calendar_events rt [JObj expired_master] w) = Inr []"
proof -
  have "truthy (JObj expired_master)" by (simp add: expired_master_def)
  then show ?thesis
    by (simp add: expand_calendar_events_def expired_master_fields expired_master_expansion)
qed

text \<open>A series that starts at 09:00 on the day its recurrence ends is lost in the same
  way: the end date parses to midnight of that day.\<close>

lemma parse_july_22_9am_Z:
  "parse_datetime (JStr ''2025-07-22T09:00:00Z'') = Inr (Some (july_1_9am\<lparr>day := 22\<rparr>))"
  by code_simp

lemma parse_july_22_10am_Z:
  "parse_datetime (JStr ''2025-07-22T10:00:00Z'')
     = Inr (Some (july_1_9am\<lparr>day := 22, hour := 10\<rparr>))"
  by code_simp

lemma same_day_master_expansion:
  "generate_recurring_instances rt same_day_master w
     = (Inr [], print (Log_generated 0 (JStr ''Demo'')) w)"
  by (simp add: generate_recurring_instances_def try_body_def
        parse_july_22_9am_Z parse_july_22_10am_Z parse_july_22 expand_loop.simps
        dt_le_def to_us_def ymd2ord_def days_before_year_def days_before_month_def
        days_before_month_table_def july_1_9am_def
        same_day_master_def dict_get_def lower_str_def lower_char_def title_of_def)

section \<open>An unknown recurrence pattern\<close>













end
